theory Spec2Isabelle
  imports Complex_Main
begin

section \<open>Model selection for word HMMs (my_model_selectors.py)\<close>

text \<open>
  The module picks the number of hidden states of a Gaussian HMM for one word.
  The HMM trainer (hmmlearn's \<^verbatim>\<open>GaussianHMM\<close>), the fold splitter
  (scikit-learn's \<^verbatim>\<open>KFold\<close>) and numpy are external libraries.  The trainer and
  the scorer are parameters of every definition below (a \<open>library\<close> record); a
  call that raises is the value \<open>None\<close>.  Python floats are modelled as real
  numbers: \<^verbatim>\<open>nan\<close>, infinities and rounding are outside the model.

  Every function that touches the trainer also returns the list of library calls
  it made, in order, so that "which fits were attempted, on which data" is a fact
  about the value of the function.
\<close>

subsection \<open>Data\<close>

text \<open>A frame is one feature vector; a sequence is the list of frames of one example.\<close>

type_synonym frame = "real list"

datatype exn = KeyError | ValueError | IndexError | AttributeError | LibraryError

text \<open>
  The fields of \<^verbatim>\<open>ModelSelector\<close> that \<^verbatim>\<open>select\<close> reads.  \<^verbatim>\<open>words\<close>,
  \<^verbatim>\<open>hwords\<close>, \<^verbatim>\<open>this_word\<close> and \<^verbatim>\<open>verbose\<close> are only stored or used for
  printing and are left out.
\<close>

record selector =
  sequences :: "frame list list"
  X :: "frame list"
  lengths :: "nat list"
  n_constant :: int
  min_n_components :: int
  max_n_components :: int
  random_state :: int

text \<open>
  The external trainer and scorer.  \<open>hmm_fit lib n seed X lengths\<close> is
  \<^verbatim>\<open>GaussianHMM(n_components=n, covariance_type="diag", n_iter=1000,
  random_state=seed, verbose=False).fit(X, lengths)\<close>, a function of its arguments
  because the seed is fixed; \<open>hmm_score lib m X lengths\<close> is \<^verbatim>\<open>m.score(X, lengths)\<close>.
  \<open>n_splits\<close> is the number of folds \<^verbatim>\<open>KFold()\<close> is built with (the library's
  default).
\<close>

record 'm library =
  hmm_fit :: "int \<Rightarrow> int \<Rightarrow> frame list \<Rightarrow> nat list \<Rightarrow> 'm option"
  hmm_score :: "'m \<Rightarrow> frame list \<Rightarrow> nat list \<Rightarrow> real option"
  n_splits :: nat

datatype 'm call =
    Fit int "frame list" "nat list"
  | Score 'm "frame list" "nat list"
  | Split nat

subsection \<open>ModelSelector\<close>

text \<open>
  \<^verbatim>\<open>__init__\<close>: the word's sequences and its (X, lengths) pair are looked up in the
  two dictionaries (a missing key raises); an argument left out takes its default
  (\<^verbatim>\<open>n_constant=3, min_n_components=2, max_n_components=10, random_state=14\<close>).
\<close>

definition ModelSelector_init ::
  "(string \<rightharpoonup> frame list list) \<Rightarrow> (string \<rightharpoonup> frame list \<times> nat list) \<Rightarrow> string \<Rightarrow>
   int option \<Rightarrow> int option \<Rightarrow> int option \<Rightarrow> int option \<Rightarrow> exn + selector" where
  "ModelSelector_init all_word_sequences all_word_Xlengths this_word
      n_constant_arg min_arg max_arg random_state_arg =
     (case all_word_sequences this_word of
        None \<Rightarrow> Inl KeyError
      | Some seqs \<Rightarrow>
          (case all_word_Xlengths this_word of
             None \<Rightarrow> Inl KeyError
           | Some (Xs, ls) \<Rightarrow>
               Inr \<lparr> sequences = seqs, X = Xs, lengths = ls,
                     n_constant = (case n_constant_arg of None \<Rightarrow> 3 | Some c \<Rightarrow> c),
                     min_n_components = (case min_arg of None \<Rightarrow> 2 | Some c \<Rightarrow> c),
                     max_n_components = (case max_arg of None \<Rightarrow> 10 | Some c \<Rightarrow> c),
                     random_state = (case random_state_arg of None \<Rightarrow> 14 | Some c \<Rightarrow> c) \<rparr>))"

text \<open>
  \<^verbatim>\<open>base_model\<close>: one fit on the selector's current \<^verbatim>\<open>X\<close> and \<^verbatim>\<open>lengths\<close>; any
  exception of the trainer is caught and \<^verbatim>\<open>None\<close> is returned.
\<close>

definition base_model :: "'m library \<Rightarrow> selector \<Rightarrow> int \<Rightarrow> 'm option \<times> 'm call list" where
  "base_model lib s num_states =
     (hmm_fit lib num_states (random_state s) (X s) (lengths s),
      [Fit num_states (X s) (lengths s)])"

text \<open>
  The expression \<^verbatim>\<open>model.score(X, lengths)\<close> on what \<^verbatim>\<open>base_model\<close> returned:
  on \<^verbatim>\<open>None\<close> the attribute lookup raises before the library is called.
\<close>

definition model_score ::
  "'m library \<Rightarrow> 'm option \<Rightarrow> frame list \<Rightarrow> nat list \<Rightarrow> (exn + real) \<times> 'm call list" where
  "model_score lib model Xs ls =
     (case model of
        None \<Rightarrow> (Inl AttributeError, [])
      | Some m \<Rightarrow>
          ((case hmm_score lib m Xs ls of None \<Rightarrow> Inl LibraryError | Some logL \<Rightarrow> Inr logL),
           [Score m Xs ls]))"

subsection \<open>SelectorConstant\<close>

definition select_Constant :: "'m library \<Rightarrow> selector \<Rightarrow> 'm option \<times> 'm call list" where
  "select_Constant lib s = (let best_num_components = n_constant s in base_model lib s best_num_components)"

subsection \<open>numpy and list indexing\<close>

text \<open>
  \<^verbatim>\<open>np.argmin\<close> and \<^verbatim>\<open>np.argmax\<close> of a list of floats: the index of the first
  occurrence of the least (greatest) element; \<^verbatim>\<open>ValueError\<close> on the empty list.
\<close>

fun first_min :: "real list \<Rightarrow> nat" where
  "first_min [] = 0"
| "first_min [x] = 0"
| "first_min (x # y # ys) =
     (let k = first_min (y # ys) in if x \<le> (y # ys) ! k then 0 else Suc k)"

fun first_max :: "real list \<Rightarrow> nat" where
  "first_max [] = 0"
| "first_max [x] = 0"
| "first_max (x # y # ys) =
     (let k = first_max (y # ys) in if (y # ys) ! k \<le> x then 0 else Suc k)"

definition np_argmin :: "real list \<Rightarrow> exn + nat" where
  "np_argmin xs = (if xs = [] then Inl ValueError else Inr (first_min xs))"

definition np_argmax :: "real list \<Rightarrow> exn + nat" where
  "np_argmax xs = (if xs = [] then Inl ValueError else Inr (first_max xs))"

text \<open>\<^verbatim>\<open>np.mean\<close> of a non-empty list of floats.\<close>

definition np_mean :: "real list \<Rightarrow> real" where
  "np_mean xs = sum_list xs / real (length xs)"

text \<open>\<^verbatim>\<open>xs[i]\<close> for an index that is not negative.\<close>

definition getitem :: "'a list \<Rightarrow> nat \<Rightarrow> exn + 'a" where
  "getitem xs i = (if i < length xs then Inr (xs ! i) else Inl IndexError)"

text \<open>
  \<^verbatim>\<open>all_n_components[np.argmin(all_scores)]\<close> and its argmax twin: the index
  computation and then the list access, either of which can raise.
\<close>

definition at_argmin :: "int list \<Rightarrow> real list \<Rightarrow> exn + int" where
  "at_argmin all_n_components all_scores =
     (case np_argmin all_scores of Inl e \<Rightarrow> Inl e | Inr i \<Rightarrow> getitem all_n_components i)"

definition at_argmax :: "int list \<Rightarrow> real list \<Rightarrow> exn + int" where
  "at_argmax all_n_components all_scores =
     (case np_argmax all_scores of Inl e \<Rightarrow> Inl e | Inr i \<Rightarrow> getitem all_n_components i)"

text \<open>
  \<^verbatim>\<open>N, d = self.X.shape\<close>.  The matrix is given by its rows.  A list without rows, or
  with rows of different lengths, is not a two-dimensional array: its shape has fewer
  than two entries and the unpacking raises \<^verbatim>\<open>ValueError\<close>.
\<close>

definition shape :: "frame list \<Rightarrow> exn + nat \<times> nat" where
  "shape Xs =
     (case Xs of
        [] \<Rightarrow> Inl ValueError
      | r # rs \<Rightarrow>
          if list_all (\<lambda>r'. length r' = length r) rs then Inr (length Xs, length r)
          else Inl ValueError)"

text \<open>
  The last step of every variant: \<^verbatim>\<open>return self.base_model(best_num_components)\<close>,
  reached only when computing \<^verbatim>\<open>best_num_components\<close> did not raise.
\<close>

definition refit ::
  "'m library \<Rightarrow> selector \<Rightarrow> exn + int \<Rightarrow> 'm call list \<Rightarrow> (exn + 'm option) \<times> 'm call list" where
  "refit lib s best calls =
     (case best of
        Inl e \<Rightarrow> (Inl e, calls)
      | Inr best_num_components \<Rightarrow>
          (let (model, c) = base_model lib s best_num_components in (Inr model, calls @ c)))"

subsection \<open>SelectorBIC\<close>

text \<open>
  The body of the \<^verbatim>\<open>try\<close> for one candidate: fit, score on the same data, BIC.
  \<open>Inl\<close> is an exception raised inside the \<^verbatim>\<open>try\<close>.
\<close>

definition bic_candidate ::
  "'m library \<Rightarrow> selector \<Rightarrow> nat \<Rightarrow> nat \<Rightarrow> int \<Rightarrow> (exn + real) \<times> 'm call list" where
  "bic_candidate lib s N d n_components =
     (let (model, c1) = base_model lib s n_components;
          (r, c2) = model_score lib model (X s) (lengths s)
      in (case r of
            Inl e \<Rightarrow> Inl e
          | Inr logL \<Rightarrow>
              Inr (- 2 * logL
                   + real_of_int (n_components * (n_components - 1) + (n_components - 1)
                                  + 2 * int d * n_components) * ln (real N)),
          c1 @ c2))"

text \<open>
  The \<^verbatim>\<open>for\<close> loop over \<^verbatim>\<open>range(min_n_components, max_n_components+1)\<close>, with the
  two result lists as accumulators; \<^verbatim>\<open>except: pass\<close> leaves them as they are.
\<close>

fun bic_loop ::
  "'m library \<Rightarrow> selector \<Rightarrow> nat \<Rightarrow> nat \<Rightarrow> int list \<Rightarrow> int list \<times> real list \<Rightarrow>
   (int list \<times> real list) \<times> 'm call list" where
  "bic_loop lib s N d [] acc = (acc, [])"
| "bic_loop lib s N d (n_components # rest) (all_n_components, all_scores) =
     (let (r, c1) = bic_candidate lib s N d n_components;
          (res, c2) =
            bic_loop lib s N d rest
              (case r of
                 Inr bic \<Rightarrow> (all_n_components @ [n_components], all_scores @ [bic])
               | Inl e \<Rightarrow> (all_n_components, all_scores))
      in (res, c1 @ c2))"

definition bic_best :: "'m library \<Rightarrow> selector \<Rightarrow> (exn + int) \<times> 'm call list" where
  "bic_best lib s =
     (case shape (X s) of
        Inl e \<Rightarrow> (Inl e, [])
      | Inr (N, d) \<Rightarrow>
          (let ((all_n_components, all_scores), calls) =
                 bic_loop lib s N d [min_n_components s .. max_n_components s] ([], [])
           in (if all_scores \<noteq> [] then at_argmin all_n_components all_scores
               else Inr (n_constant s),
               calls)))"

definition select_BIC :: "'m library \<Rightarrow> selector \<Rightarrow> (exn + 'm option) \<times> 'm call list" where
  "select_BIC lib s = (let (best, calls) = bic_best lib s in refit lib s best calls)"

subsection \<open>SelectorDIC\<close>

definition dic_candidate :: "'m library \<Rightarrow> selector \<Rightarrow> int \<Rightarrow> (exn + real) \<times> 'm call list" where
  "dic_candidate lib s n_components =
     (let (model, c1) = base_model lib s n_components;
          (r, c2) = model_score lib model (X s) (lengths s)
      in (r, c1 @ c2))"

fun dic_loop ::
  "'m library \<Rightarrow> selector \<Rightarrow> int list \<Rightarrow> int list \<times> real list \<times> real \<Rightarrow>
   (int list \<times> real list \<times> real) \<times> 'm call list" where
  "dic_loop lib s [] acc = (acc, [])"
| "dic_loop lib s (n_components # rest) (all_n_components, all_logLs, sum_logL) =
     (let (r, c1) = dic_candidate lib s n_components;
          (res, c2) =
            dic_loop lib s rest
              (case r of
                 Inr logL \<Rightarrow>
                   (all_n_components @ [n_components], all_logLs @ [logL], sum_logL + logL)
               | Inl e \<Rightarrow> (all_n_components, all_logLs, sum_logL))
      in (res, c1 @ c2))"

text \<open>
  The branches after the loop.  \<open>M\<close> is \<^verbatim>\<open>len(all_n_components)-1\<close>, an integer
  that is \<open>-1\<close> when no candidate was kept.
\<close>

definition dic_choose :: "selector \<Rightarrow> int list \<Rightarrow> real list \<Rightarrow> real \<Rightarrow> exn + int" where
  "dic_choose s all_n_components all_logLs sum_logL =
     (let M = int (length all_n_components) - 1 in
      if M > 1 then
        at_argmax all_n_components
          (map (\<lambda>logL. logL - (sum_logL - logL) / real_of_int M) all_logLs)
      else if M = 1 then getitem all_n_components 0
      else Inr (n_constant s))"

definition dic_best :: "'m library \<Rightarrow> selector \<Rightarrow> (exn + int) \<times> 'm call list" where
  "dic_best lib s =
     (let ((all_n_components, all_logLs, sum_logL), calls) =
            dic_loop lib s [min_n_components s .. max_n_components s] ([], [], 0)
      in (dic_choose s all_n_components all_logLs sum_logL, calls))"

definition select_DIC :: "'m library \<Rightarrow> selector \<Rightarrow> (exn + 'm option) \<times> 'm call list" where
  "select_DIC lib s = (let (best, calls) = dic_best lib s in refit lib s best calls)"

subsection \<open>SelectorCV\<close>

text \<open>
  Modelled from the spec: \<^verbatim>\<open>combine_sequences\<close> of \<^verbatim>\<open>asl_utils\<close>, which is not
  among the sources.  The sequences at the given indices are concatenated into one
  observation set, with the list of their lengths; an index past the end raises.
\<close>

definition combine_sequences ::
  "nat list \<Rightarrow> frame list list \<Rightarrow> exn + frame list \<times> nat list" where
  "combine_sequences split_index_list seqs =
     (if list_all (\<lambda>i. i < length seqs) split_index_list
      then Inr (concat (map (\<lambda>i. seqs ! i) split_index_list),
                map (\<lambda>i. length (seqs ! i)) split_index_list)
      else Inl IndexError)"

text \<open>
  scikit-learn's \<^verbatim>\<open>KFold(n_splits).split\<close> without shuffling, on \<open>n\<close> samples: the
  first \<open>n mod n_splits\<close> folds hold \<open>n div n_splits + 1\<close> consecutive indices, the
  others \<open>n div n_splits\<close>; each fold is the test part once and the other indices are
  the training part.  More folds than samples raise \<^verbatim>\<open>ValueError\<close> when the first
  fold is asked for.
\<close>

definition fold_sizes :: "nat \<Rightarrow> nat \<Rightarrow> nat list" where
  "fold_sizes k n = map (\<lambda>i. if i < n mod k then n div k + 1 else n div k) [0..<k]"

fun kfold_from :: "nat \<Rightarrow> nat \<Rightarrow> nat list \<Rightarrow> (nat list \<times> nat list) list" where
  "kfold_from n current [] = []"
| "kfold_from n current (fold_size # rest) =
     ([0..<current] @ [current + fold_size..<n], [current..<current + fold_size])
       # kfold_from n (current + fold_size) rest"

definition KFold_split :: "nat \<Rightarrow> nat \<Rightarrow> exn + (nat list \<times> nat list) list" where
  "KFold_split k n = (if k > n then Inl ValueError else Inr (kfold_from n 0 (fold_sizes k n)))"

text \<open>
  The inner loop over the folds for one candidate.  The training part is assigned to
  \<^verbatim>\<open>self.X\<close> and \<^verbatim>\<open>self.lengths\<close>, so the selector is threaded through and
  returned; an exception leaves it as the last assignment made it.
\<close>

fun cv_folds ::
  "'m library \<Rightarrow> int \<Rightarrow> (nat list \<times> nat list) list \<Rightarrow> selector \<Rightarrow> real list \<Rightarrow>
   (exn + real list) \<times> selector \<times> 'm call list" where
  "cv_folds lib n_components [] s scores = (Inr scores, s, [])"
| "cv_folds lib n_components ((cv_train_idx, cv_test_idx) # rest) s scores =
     (case combine_sequences cv_train_idx (sequences s) of
        Inl e \<Rightarrow> (Inl e, s, [])
      | Inr (X_train, lengths_train) \<Rightarrow>
          (let s1 = s\<lparr>X := X_train, lengths := lengths_train\<rparr> in
           (case combine_sequences cv_test_idx (sequences s1) of
              Inl e \<Rightarrow> (Inl e, s1, [])
            | Inr (X_test, lengths_test) \<Rightarrow>
                (let (model, c1) = base_model lib s1 n_components;
                     (r, c2) = model_score lib model X_test lengths_test
                 in (case r of
                       Inl e \<Rightarrow> (Inl e, s1, c1 @ c2)
                     | Inr score \<Rightarrow>
                         (let (res, s2, c3) =
                                cv_folds lib n_components rest s1 (scores @ [score])
                          in (res, s2, c1 @ c2 @ c3)))))))"

text \<open>The body of the \<^verbatim>\<open>try\<close> for one candidate.\<close>

definition cv_candidate ::
  "'m library \<Rightarrow> selector \<Rightarrow> int \<Rightarrow> (exn + real) \<times> selector \<times> 'm call list" where
  "cv_candidate lib s n_components =
     (if length (sequences s) > 2 then
        (case KFold_split (n_splits lib) (length (sequences s)) of
           Inl e \<Rightarrow> (Inl e, s, [Split (length (sequences s))])
         | Inr folds \<Rightarrow>
             (let (res, s', c) = cv_folds lib n_components folds s []
              in ((case res of Inl e \<Rightarrow> Inl e | Inr scores \<Rightarrow> Inr (np_mean scores)),
                  s', Split (length (sequences s)) # c)))
      else
        (let (model, c1) = base_model lib s n_components;
             (r, c2) = model_score lib model (X s) (lengths s)
         in (r, s, c1 @ c2)))"

fun cv_loop ::
  "'m library \<Rightarrow> int list \<Rightarrow> selector \<Rightarrow> int list \<times> real list \<Rightarrow>
   (int list \<times> real list) \<times> selector \<times> 'm call list" where
  "cv_loop lib [] s acc = (acc, s, [])"
| "cv_loop lib (n_components # rest) s (all_n_components, all_scores) =
     (let (r, s1, c1) = cv_candidate lib s n_components;
          (res, s2, c2) =
            cv_loop lib rest s1
              (case r of
                 Inr score \<Rightarrow> (all_n_components @ [n_components], all_scores @ [score])
               | Inl e \<Rightarrow> (all_n_components, all_scores))
      in (res, s2, c1 @ c2))"

definition cv_best :: "'m library \<Rightarrow> selector \<Rightarrow> (exn + int) \<times> selector \<times> 'm call list" where
  "cv_best lib s =
     (let ((all_n_components, all_scores), s', calls) =
            cv_loop lib [min_n_components s .. max_n_components s] s ([], [])
      in (if all_scores \<noteq> [] then at_argmax all_n_components all_scores
          else Inr (n_constant s'),
          s', calls))"

text \<open>
  \<^verbatim>\<open>SelectorCV.select\<close>: the result, the selector as the call leaves it, and the
  library calls made.
\<close>

definition select_CV ::
  "'m library \<Rightarrow> selector \<Rightarrow> (exn + 'm option) \<times> selector \<times> 'm call list" where
  "select_CV lib s =
     (let (best, s', calls) = cv_best lib s;
          (res, calls') = refit lib s' best calls
      in (res, s', calls'))"

subsection \<open>Vocabulary of the properties\<close>

text \<open>
  What the sweep of each variant computes for one candidate, on the selector as
  \<^verbatim>\<open>select\<close> receives it: \<open>Inr\<close> the score that is appended, \<open>Inl\<close> the exception
  that makes the candidate be skipped.
\<close>

definition bic_score :: "'m library \<Rightarrow> selector \<Rightarrow> nat \<Rightarrow> nat \<Rightarrow> int \<Rightarrow> exn + real" where
  "bic_score lib s N d n = fst (bic_candidate lib s N d n)"

definition dic_logL :: "'m library \<Rightarrow> selector \<Rightarrow> int \<Rightarrow> exn + real" where
  "dic_logL lib s n = fst (dic_candidate lib s n)"

definition cv_score :: "'m library \<Rightarrow> selector \<Rightarrow> int \<Rightarrow> exn + real" where
  "cv_score lib s n = fst (cv_candidate lib s n)"

text \<open>The candidates of the configured range for which a score function succeeds, in order.\<close>

definition successful :: "(int \<Rightarrow> exn + real) \<Rightarrow> selector \<Rightarrow> int list" where
  "successful score s =
     filter (\<lambda>n. \<not> isl (score n)) [min_n_components s .. max_n_components s]"

text \<open>
  The discriminative criterion of the class docstring for candidate \<open>n\<close> among the
  candidates \<open>cands\<close>: its own log-likelihood minus the mean of the others'.
\<close>

definition DIC :: "(int \<Rightarrow> exn + real) \<Rightarrow> int list \<Rightarrow> int \<Rightarrow> real" where
  "DIC logL cands n =
     projr (logL n)
     - (1 / (real (length cands) - 1))
       * sum_list (map (\<lambda>n'. projr (logL n')) (filter (\<lambda>n'. n' \<noteq> n) cands))"

subsection \<open>A library and selectors to run the definitions on\<close>

text \<open>
  A trainer that succeeds on the state counts \<open>fits\<close> accepts and returns, as the
  model, the state count with the data it was trained on; its score is read from a
  table by state count.
\<close>

definition table_library ::
  "(int \<Rightarrow> bool) \<Rightarrow> (int \<Rightarrow> real option) \<Rightarrow> nat \<Rightarrow> (int \<times> frame list) library" where
  "table_library fits logL k =
     \<lparr> hmm_fit = (\<lambda>n seed Xs ls. if fits n then Some (n, Xs) else None),
       hmm_score = (\<lambda>m Xs ls. logL (fst m)),
       n_splits = k \<rparr>"

text \<open>
  A selector for a word with the given example sequences, as \<^verbatim>\<open>__init__\<close> builds it
  with the default \<^verbatim>\<open>n_constant\<close> and \<^verbatim>\<open>random_state\<close>.
\<close>

definition word_selector :: "frame list list \<Rightarrow> int \<Rightarrow> int \<Rightarrow> selector" where
  "word_selector seqs mn mx =
     \<lparr> sequences = seqs, X = concat seqs, lengths = map length seqs,
       n_constant = 3, min_n_components = mn, max_n_components = mx, random_state = 14 \<rparr>"

text \<open>
  The scenario of the specification: the word JOHN with ten example sequences (one
  frame of one feature each), candidates 2 to 4, and a scorer whose log-likelihoods
  give the BIC values 120.5, 110.2 and 115.8.
\<close>

definition john :: selector where
  "john = word_selector [[[0]], [[1]], [[2]], [[3]], [[4]], [[5]], [[6]], [[7]], [[8]], [[9]]] 2 4"

definition john_library :: "(int \<times> frame list) library" where
  "john_library =
     table_library (\<lambda>n. True)
       (\<lambda>n. if n = 2 then Some ((7 * ln 10 - 120.5) / 2)
            else if n = 3 then Some ((14 * ln 10 - 110.2) / 2)
            else Some ((23 * ln 10 - 115.8) / 2)) 3"

text \<open>A word with two one-frame examples, and a score table for the candidates 2 to 4.\<close>

definition two_examples :: selector where
  "two_examples = word_selector [[[1]], [[2]]] 2 4"

definition logL_table :: "real option \<Rightarrow> real option \<Rightarrow> real option \<Rightarrow> int \<Rightarrow> real option" where
  "logL_table l2 l3 l4 n = (if n = 2 then l2 else if n = 3 then l3 else if n = 4 then l4 else None)"

text \<open>Words with three and with five one-frame examples, candidates 2 and 3.\<close>

definition three_examples :: selector where
  "three_examples = word_selector [[[1]], [[2]], [[3]]] 2 3"

definition five_examples :: selector where
  "five_examples = word_selector [[[1]], [[2]], [[3]], [[4]], [[5]]] 2 3"

section \<open>Properties\<close>

text \<open>
  C7. SelectorConstant.select makes exactly one library call, a fit at the configured
  \<open>n_constant\<close> on the selector's data, and returns what that fit returned (the model, or
  \<open>None\<close> when the fit raised); a selector constructed without an \<open>n_constant\<close> argument
  has \<open>n_constant = 3\<close>.
\<close>

theorem select_Constant_single_fit:
  "select_Constant lib s =
     (hmm_fit lib (n_constant s) (random_state s) (X s) (lengths s),
      [Fit (n_constant s) (X s) (lengths s)])
   \<and> (ModelSelector_init ws hs w None mn mx rs = Inr s \<longrightarrow> n_constant s = 3)"
  by (auto simp: select_Constant_def base_model_def ModelSelector_init_def Let_def split: option.splits)

theorem select_Constant_single_fit_witness:
  "ModelSelector_init [''JOHN'' \<mapsto> [[[1]], [[2]]]] [''JOHN'' \<mapsto> ([[1], [2]], [1, 1])]
       ''JOHN'' None (Some 2) (Some 4) None
     = Inr (word_selector [[[1]], [[2]]] 2 4)
   \<and> n_constant (word_selector [[[1]], [[2]]] 2 4) = 3
   \<and> select_Constant (table_library (\<lambda>n. True) (\<lambda>n. Some 0) 3) (word_selector [[[1]], [[2]]] 2 4)
     = (Some (3, [[1], [2]]), [Fit 3 [[1], [2]] [1, 1]])"
  using select_Constant_single_fit
    [of "table_library (\<lambda>n. True) (\<lambda>n. Some 0) 3" "word_selector [[[1]], [[2]]] 2 4"
        "[''JOHN'' \<mapsto> [[[1]], [[2]]]]" "[''JOHN'' \<mapsto> ([[1], [2]], [1, 1])]" "''JOHN''"
        "Some 2" "Some 4" None]
  by (simp add: ModelSelector_init_def word_selector_def table_library_def)

subsection \<open>Auxiliary facts: first optimum, loops, evaluation\<close>

lemma first_min_less: "xs \<noteq> [] \<Longrightarrow> first_min xs < length xs"
  by (induction xs rule: first_min.induct) (auto simp: Let_def)

lemma first_min_le: "i < length xs \<Longrightarrow> xs ! first_min xs \<le> xs ! i"
proof (induction xs arbitrary: i rule: first_min.induct)
  case 1 then show ?case by simp
next
  case (2 x) then show ?case by simp
next
  case (3 x y ys)
  show ?case
  proof (cases i)
    case 0
    then show ?thesis by (auto simp: Let_def)
  next
    case (Suc j)
    with 3 have "(y # ys) ! first_min (y # ys) \<le> (y # ys) ! j" by simp
    with Suc show ?thesis by (auto simp: Let_def)
  qed
qed

lemma first_min_first: "i < first_min xs \<Longrightarrow> xs ! first_min xs < xs ! i"
proof (induction xs arbitrary: i rule: first_min.induct)
  case 1 then show ?case by simp
next
  case (2 x) then show ?case by simp
next
  case (3 x y ys)
  show ?case
  proof (cases i)
    case 0
    with 3 show ?thesis by (auto simp: Let_def split: if_splits)
  next
    case (Suc j)
    with 3 show ?thesis by (auto simp: Let_def split: if_splits)
  qed
qed

lemma first_max_less: "xs \<noteq> [] \<Longrightarrow> first_max xs < length xs"
  by (induction xs rule: first_max.induct) (auto simp: Let_def)

lemma first_max_ge: "i < length xs \<Longrightarrow> xs ! i \<le> xs ! first_max xs"
proof (induction xs arbitrary: i rule: first_max.induct)
  case 1 then show ?case by simp
next
  case (2 x) then show ?case by simp
next
  case (3 x y ys)
  show ?case
  proof (cases i)
    case 0
    then show ?thesis by (auto simp: Let_def)
  next
    case (Suc j)
    with 3 have "(y # ys) ! j \<le> (y # ys) ! first_max (y # ys)" by simp
    with Suc show ?thesis by (auto simp: Let_def)
  qed
qed

lemma first_max_first: "i < first_max xs \<Longrightarrow> xs ! i < xs ! first_max xs"
proof (induction xs arbitrary: i rule: first_max.induct)
  case 1 then show ?case by simp
next
  case (2 x) then show ?case by simp
next
  case (3 x y ys)
  show ?case
  proof (cases i)
    case 0
    with 3 show ?thesis by (auto simp: Let_def split: if_splits)
  next
    case (Suc j)
    with 3 show ?thesis by (auto simp: Let_def split: if_splits)
  qed
qed

lemma bic_loop_fst:
  "fst (bic_loop lib s N d ns (an, sc)) =
     (an @ filter (\<lambda>n. \<not> isl (bic_score lib s N d n)) ns,
      sc @ map (\<lambda>n. projr (bic_score lib s N d n)) (filter (\<lambda>n. \<not> isl (bic_score lib s N d n)) ns))"
  by (induction ns arbitrary: an sc)
     (auto simp: bic_score_def split_beta Let_def split: sum.splits)

lemma dic_loop_fst:
  "fst (dic_loop lib s ns (an, ls, sm)) =
     (an @ filter (\<lambda>n. \<not> isl (dic_logL lib s n)) ns,
      ls @ map (\<lambda>n. projr (dic_logL lib s n)) (filter (\<lambda>n. \<not> isl (dic_logL lib s n)) ns),
      sm + sum_list (map (\<lambda>n. projr (dic_logL lib s n)) (filter (\<lambda>n. \<not> isl (dic_logL lib s n)) ns)))"
  by (induction ns arbitrary: an ls sm)
     (auto simp: dic_logL_def split_beta Let_def split: sum.splits)

lemma at_argmin_map:
  assumes "cands \<noteq> []"
  shows "\<exists>i<length cands. at_argmin cands (map val cands) = Inr (cands ! i)
           \<and> (\<forall>j<length cands. val (cands ! i) \<le> val (cands ! j))
           \<and> (\<forall>j<i. val (cands ! i) < val (cands ! j))"
proof -
  let ?sc = "map val cands"
  let ?i = "first_min ?sc"
  from assms have ne: "?sc \<noteq> []" by simp
  then have i: "?i < length cands" using first_min_less [of ?sc] by simp
  have le: "\<forall>j<length cands. val (cands ! ?i) \<le> val (cands ! j)"
    using first_min_le [of _ ?sc] i by auto
  have lt: "\<forall>j<?i. val (cands ! ?i) < val (cands ! j)"
    using first_min_first [of _ ?sc] i by auto
  have "at_argmin cands ?sc = Inr (cands ! ?i)"
    using ne i by (simp add: at_argmin_def np_argmin_def getitem_def)
  with i le lt show ?thesis by blast
qed

lemma at_argmax_map:
  assumes "cands \<noteq> []"
  shows "\<exists>i<length cands. at_argmax cands (map val cands) = Inr (cands ! i)
           \<and> (\<forall>j<length cands. val (cands ! j) \<le> val (cands ! i))
           \<and> (\<forall>j<i. val (cands ! j) < val (cands ! i))"
proof -
  let ?sc = "map val cands"
  let ?i = "first_max ?sc"
  from assms have ne: "?sc \<noteq> []" by simp
  then have i: "?i < length cands" using first_max_less [of ?sc] by simp
  have le: "\<forall>j<length cands. val (cands ! j) \<le> val (cands ! ?i)"
    using first_max_ge [of _ ?sc] i by auto
  have lt: "\<forall>j<?i. val (cands ! j) < val (cands ! ?i)"
    using first_max_first [of _ ?sc] i by auto
  have "at_argmax cands ?sc = Inr (cands ! ?i)"
    using ne i by (simp add: at_argmax_def np_argmax_def getitem_def)
  with i le lt show ?thesis by blast
qed

lemma successful_sorted: "sorted_wrt (<) (successful score s)"
  unfolding successful_def
  by (intro sorted_wrt_filter) (simp add: strict_sorted_iff)

text \<open>Selection of the first optimum among strictly ascending candidates.\<close>

lemma pick_min:
  assumes ne: "cands \<noteq> []" and so: "sorted_wrt (<) cands"
  shows "\<exists>best. at_argmin cands (map val cands) = Inr best \<and> best \<in> set cands
           \<and> (\<forall>n\<in>set cands. val best \<le> val n)
           \<and> (\<forall>n\<in>set cands. val n \<le> val best \<longrightarrow> best \<le> n)"
proof -
  from at_argmin_map [OF ne, of val] obtain i where
    i: "i < length cands" and sel: "at_argmin cands (map val cands) = Inr (cands ! i)"
    and le: "\<forall>j<length cands. val (cands ! i) \<le> val (cands ! j)"
    and lt: "\<forall>j<i. val (cands ! i) < val (cands ! j)" by blast
  have "\<forall>n\<in>set cands. val (cands ! i) \<le> val n"
    using le by (auto simp: in_set_conv_nth)
  moreover have "\<forall>n\<in>set cands. val n \<le> val (cands ! i) \<longrightarrow> cands ! i \<le> n"
  proof (intro ballI impI)
    fix n assume "n \<in> set cands" and opt: "val n \<le> val (cands ! i)"
    then obtain j where j: "j < length cands" "n = cands ! j" by (auto simp: in_set_conv_nth)
    have "\<not> j < i" using lt opt j by auto
    then have "i \<le> j" by simp
    then show "cands ! i \<le> n"
      using so j i by (cases "i = j") (auto simp: sorted_wrt_iff_nth_less less_imp_le)
  qed
  ultimately show ?thesis using sel i by auto
qed

lemma pick_max:
  assumes ne: "cands \<noteq> []" and so: "sorted_wrt (<) cands"
  shows "\<exists>best. at_argmax cands (map val cands) = Inr best \<and> best \<in> set cands
           \<and> (\<forall>n\<in>set cands. val n \<le> val best)
           \<and> (\<forall>n\<in>set cands. val best \<le> val n \<longrightarrow> best \<le> n)"
proof -
  from at_argmax_map [OF ne, of val] obtain i where
    i: "i < length cands" and sel: "at_argmax cands (map val cands) = Inr (cands ! i)"
    and le: "\<forall>j<length cands. val (cands ! j) \<le> val (cands ! i)"
    and lt: "\<forall>j<i. val (cands ! j) < val (cands ! i)" by blast
  have "\<forall>n\<in>set cands. val n \<le> val (cands ! i)"
    using le by (auto simp: in_set_conv_nth)
  moreover have "\<forall>n\<in>set cands. val (cands ! i) \<le> val n \<longrightarrow> cands ! i \<le> n"
  proof (intro ballI impI)
    fix n assume "n \<in> set cands" and opt: "val (cands ! i) \<le> val n"
    then obtain j where j: "j < length cands" "n = cands ! j" by (auto simp: in_set_conv_nth)
    have "\<not> j < i" using lt opt j by auto
    then have "i \<le> j" by simp
    then show "cands ! i \<le> n"
      using so j i by (cases "i = j") (auto simp: sorted_wrt_iff_nth_less less_imp_le)
  qed
  ultimately show ?thesis using sel i by auto
qed

lemma bic_best_eq:
  assumes "shape (X s) = Inr (N, d)"
  shows "fst (bic_best lib s) =
     (let cands = successful (bic_score lib s N d) s in
      if cands \<noteq> [] then at_argmin cands (map (\<lambda>n. projr (bic_score lib s N d n)) cands)
      else Inr (n_constant s))"
  using assms bic_loop_fst [of lib s N d "[min_n_components s .. max_n_components s]" "[]" "[]"]
  by (auto simp: bic_best_def successful_def Let_def split_beta)

lemma dic_best_eq:
  "fst (dic_best lib s) =
     (let cands = successful (dic_logL lib s) s;
          logLs = map (\<lambda>n. projr (dic_logL lib s n)) cands
      in dic_choose s cands logLs (sum_list logLs))"
  using dic_loop_fst [of lib s "[min_n_components s .. max_n_components s]" "[]" "[]" 0]
  by (auto simp: dic_best_def successful_def Let_def split_beta)

lemma select_BIC_fst:
  "fst (bic_best lib s) = Inr best \<Longrightarrow>
   fst (select_BIC lib s) = Inr (hmm_fit lib best (random_state s) (X s) (lengths s))"
  by (simp add: select_BIC_def refit_def base_model_def split_beta)

lemma select_DIC_fst:
  "fst (dic_best lib s) = Inr best \<Longrightarrow>
   fst (select_DIC lib s) = Inr (hmm_fit lib best (random_state s) (X s) (lengths s))"
  by (simp add: select_DIC_def refit_def base_model_def split_beta)

lemma sum_others:
  "distinct xs \<Longrightarrow> x \<in> set xs \<Longrightarrow>
   sum_list (map f (filter (\<lambda>y. y \<noteq> x) xs)) = sum_list (map f xs) - (f x :: real)"
proof (induction xs)
  case Nil then show ?case by simp
next
  case (Cons a xs)
  show ?case
  proof (cases "a = x")
    case True
    with Cons.prems have "x \<notin> set xs" by simp
    then have "filter (\<lambda>y. y \<noteq> x) xs = xs" by (auto simp: filter_id_conv)
    with True show ?thesis by simp
  next
    case False
    with Cons show ?thesis by simp
  qed
qed

lemma upto_2_4: "[2 .. 4::int] = [2, 3, 4]"
  by (simp add: upto_rec_numeral)

lemmas run_defs =
  two_examples_def word_selector_def table_library_def logL_table_def
  base_model_def model_score_def upto_2_4 Let_def

lemmas dic_run_defs =
  dic_logL_def dic_candidate_def dic_best_def dic_choose_def select_DIC_def refit_def
  at_argmax_def np_argmax_def getitem_def successful_def

subsection \<open>SelectorBIC\<close>

text \<open>
  C5. On a two-dimensional \<open>X\<close>, SelectorBIC selects a state count with the least BIC among
  the candidates of the configured range whose fit and score succeed, or \<open>n_constant\<close> when
  there is none, and returns the model refit at the selected count.  With the candidates
  2 to 4 and the BIC values 120.5, 110.2 and 115.8 the selected count is 3.
\<close>

theorem select_BIC_minimizes:
  assumes sh: "shape (X s) = Inr (N, d)"
  shows "let cands = successful (bic_score lib s N d) s;
             bic = (\<lambda>n. projr (bic_score lib s N d n))
         in (\<exists>best. fst (bic_best lib s) = Inr best
               \<and> (if cands = [] then best = n_constant s
                   else best \<in> set cands \<and> (\<forall>n\<in>set cands. bic best \<le> bic n))
               \<and> fst (select_BIC lib s)
                   = Inr (hmm_fit lib best (random_state s) (X s) (lengths s)))
            \<and> (min_n_components s = 2 \<and> max_n_components s = 4
                 \<and> bic_score lib s N d 2 = Inr 120.5
                 \<and> bic_score lib s N d 3 = Inr 110.2
                 \<and> bic_score lib s N d 4 = Inr 115.8
                \<longrightarrow> fst (bic_best lib s) = Inr 3)"
proof -
  let ?cands = "successful (bic_score lib s N d) s"
  let ?bic = "\<lambda>n. projr (bic_score lib s N d n)"
  have best: "fst (bic_best lib s) =
      (if ?cands \<noteq> [] then at_argmin ?cands (map ?bic ?cands) else Inr (n_constant s))"
    using bic_best_eq [OF sh, of lib] by (simp add: Let_def)
  have general: "\<exists>best. fst (bic_best lib s) = Inr best
               \<and> (if ?cands = [] then best = n_constant s
                   else best \<in> set ?cands \<and> (\<forall>n\<in>set ?cands. ?bic best \<le> ?bic n))
               \<and> fst (select_BIC lib s)
                   = Inr (hmm_fit lib best (random_state s) (X s) (lengths s))"
  proof (cases "?cands = []")
    case True
    with best show ?thesis by (simp add: select_BIC_fst)
  next
    case False
    from pick_min [OF False successful_sorted, of ?bic] obtain b where
      "at_argmin ?cands (map ?bic ?cands) = Inr b" "b \<in> set ?cands"
      "\<forall>n\<in>set ?cands. ?bic b \<le> ?bic n" by blast
    with False best show ?thesis by (simp add: select_BIC_fst)
  qed
  have example: "fst (bic_best lib s) = Inr 3"
    if "min_n_components s = 2" "max_n_components s = 4"
       "bic_score lib s N d 2 = Inr 120.5" "bic_score lib s N d 3 = Inr 110.2"
       "bic_score lib s N d 4 = Inr 115.8"
  proof -
    have "[2 .. 4::int] = [2, 3, 4]" by (simp add: upto_rec_numeral)
    with that have c: "?cands = [2, 3, 4]" by (simp add: successful_def)
    show ?thesis unfolding best c using that
      by (simp add: at_argmin_def np_argmin_def getitem_def)
  qed
  from general example show ?thesis by (simp add: Let_def)
qed

text \<open>The scenario itself: ten sequences, BIC values 120.5, 110.2, 115.8, selected count 3.\<close>

theorem select_BIC_minimizes_witness:
  "shape (X john) = Inr (10, 1)
   \<and> min_n_components john = 2 \<and> max_n_components john = 4
   \<and> bic_score john_library john 10 1 2 = Inr 120.5
   \<and> bic_score john_library john 10 1 3 = Inr 110.2
   \<and> bic_score john_library john 10 1 4 = Inr 115.8
   \<and> successful (bic_score john_library john 10 1) john = [2, 3, 4]
   \<and> fst (bic_best john_library john) = Inr 3
   \<and> fst (select_BIC john_library john) = Inr (Some (3, X john))"
proof -
  have sh: "shape (X john) = Inr (10, 1)"
    by (simp add: john_def word_selector_def shape_def)
  have rng: "min_n_components john = 2" "max_n_components john = 4"
    by (simp_all add: john_def word_selector_def)
  have sc: "bic_score john_library john 10 1 2 = Inr 120.5"
    "bic_score john_library john 10 1 3 = Inr 110.2"
    "bic_score john_library john 10 1 4 = Inr 115.8"
    by (simp_all add: bic_score_def bic_candidate_def base_model_def model_score_def
          john_library_def table_library_def diff_divide_distrib)
  have cands: "successful (bic_score john_library john 10 1) john = [2, 3, 4]"
    using sc rng by (simp add: successful_def upto_2_4)
  from select_BIC_minimizes [OF sh, of john_library] rng sc
  have best: "fst (bic_best john_library john) = Inr 3" by (simp add: Let_def)
  from select_BIC_minimizes [OF sh, of john_library] best
  have "fst (select_BIC john_library john)
          = Inr (hmm_fit john_library 3 (random_state john) (X john) (lengths john))"
    by (auto simp: Let_def)
  then have "fst (select_BIC john_library john) = Inr (Some (3, X john))"
    by (simp add: john_library_def table_library_def)
  with sh rng sc cands best show ?thesis by simp
qed

text \<open>
  C6. A candidate \<open>n\<close> gets a score exactly when its fit and its score on \<open>X\<close> succeed,
  and the score is \<open>-2 logL + p ln N\<close> with \<open>p = n (n - 1) + (n - 1) + 2 d n\<close>, where
  \<open>N\<close> is the number of rows of \<open>X\<close> and \<open>d\<close> the length of each row; the score list of
  the sweep consists of these values for the successful candidates, in order.
\<close>

theorem bic_formula:
  assumes sh: "shape (X s) = Inr (N, d)"
  shows "(bic_score lib s N d n = Inr b \<longleftrightarrow>
            (\<exists>m logL. hmm_fit lib n (random_state s) (X s) (lengths s) = Some m
               \<and> hmm_score lib m (X s) (lengths s) = Some logL
               \<and> b = - 2 * logL + real_of_int (n * (n - 1) + (n - 1) + 2 * int d * n) * ln (real N)))
         \<and> fst (bic_loop lib s N d [min_n_components s .. max_n_components s] ([], []))
             = (successful (bic_score lib s N d) s,
                map (\<lambda>n. projr (bic_score lib s N d n)) (successful (bic_score lib s N d) s))
         \<and> N = length (X s) \<and> list_all (\<lambda>r. length r = d) (X s)"
proof -
  have "bic_score lib s N d n = Inr b \<longleftrightarrow>
            (\<exists>m logL. hmm_fit lib n (random_state s) (X s) (lengths s) = Some m
               \<and> hmm_score lib m (X s) (lengths s) = Some logL
               \<and> b = - 2 * logL + real_of_int (n * (n - 1) + (n - 1) + 2 * int d * n) * ln (real N))"
    by (auto simp: bic_score_def bic_candidate_def base_model_def model_score_def
             split: option.splits)
  moreover have "N = length (X s) \<and> list_all (\<lambda>r. length r = d) (X s)"
    using sh by (auto simp: shape_def split: list.splits if_splits)
  ultimately show ?thesis
    using bic_loop_fst [of lib s N d "[min_n_components s .. max_n_components s]" "[]" "[]"]
    by (simp add: successful_def)
qed

text \<open>Candidate 3 of the scenario: \<open>p = 14\<close>, \<open>N = 10\<close>.\<close>

theorem bic_formula_witness:
  "shape (X john) = Inr (10, 1)
   \<and> hmm_fit john_library 3 (random_state john) (X john) (lengths john) = Some (3, X john)
   \<and> hmm_score john_library (3, X john) (X john) (lengths john) = Some ((14 * ln 10 - 110.2) / 2)
   \<and> bic_score john_library john 10 1 3
       = Inr (- 2 * ((14 * ln 10 - 110.2) / 2) + real_of_int (3 * (3 - 1) + (3 - 1) + 2 * 1 * 3) * ln 10)
   \<and> fst (bic_loop john_library john 10 1 [2 .. 4] ([], [])) = ([2, 3, 4], [120.5, 110.2, 115.8])
   \<and> length (X john) = 10"
proof -
  have sh: "shape (X john) = Inr (10, 1)"
    by (simp add: john_def word_selector_def shape_def)
  have rng: "min_n_components john = 2" "max_n_components john = 4"
    by (simp_all add: john_def word_selector_def)
  have fit: "hmm_fit john_library 3 (random_state john) (X john) (lengths john) = Some (3, X john)"
    and score: "hmm_score john_library (3, X john) (X john) (lengths john)
                  = Some ((14 * ln 10 - 110.2) / 2)"
    by (simp_all add: john_library_def table_library_def)
  note inst = bic_formula [OF sh, of john_library]
  let ?b = "- 2 * ((14 * ln 10 - 110.2) / 2) + real_of_int (3 * (3 - 1) + (3 - 1) + 2 * 1 * 3) * ln 10"
  have "\<exists>m logL. hmm_fit john_library 3 (random_state john) (X john) (lengths john) = Some m
          \<and> hmm_score john_library m (X john) (lengths john) = Some logL
          \<and> ?b = - 2 * logL + real_of_int (3 * (3 - 1) + (3 - 1) + 2 * int 1 * 3) * ln (real 10)"
    using fit score by (intro exI [of _ "(3, X john)"] exI [of _ "(14 * ln 10 - 110.2) / 2"]) simp
  with inst [of 3 ?b]
  have one: "bic_score john_library john 10 1 3 = Inr ?b"
    by blast
  have sc: "bic_score john_library john 10 1 2 = Inr 120.5"
    "bic_score john_library john 10 1 3 = Inr 110.2"
    "bic_score john_library john 10 1 4 = Inr 115.8"
    by (simp_all add: bic_score_def bic_candidate_def base_model_def model_score_def
          john_library_def table_library_def diff_divide_distrib)
  have cands: "successful (bic_score john_library john 10 1) john = [2, 3, 4]"
    using sc rng by (simp add: successful_def upto_2_4)
  from inst [of 3 0] rng cands sc
  have loop: "fst (bic_loop john_library john 10 1 [2 .. 4] ([], [])) = ([2, 3, 4], [120.5, 110.2, 115.8])"
    by simp
  from inst [of 3 0] have "length (X john) = 10" by simp
  with sh fit score one loop show ?thesis by simp
qed

subsection \<open>SelectorDIC\<close>

text \<open>
  C2 (as amended). When at least three candidates fit and score, SelectorDIC selects a
  successful candidate that maximizes \<open>DIC n = logL n - (1/M) * (sum of the other
  successful candidates' logL)\<close>, with \<open>M\<close> the number of successful candidates minus
  one, and returns the model refit at that count.
\<close>

theorem select_DIC_maximizes:
  "let logL = dic_logL lib s; cands = successful logL s
   in 3 \<le> length cands \<longrightarrow>
      (\<exists>best\<in>set cands. fst (dic_best lib s) = Inr best
          \<and> (\<forall>n\<in>set cands. DIC logL cands n \<le> DIC logL cands best)
          \<and> fst (select_DIC lib s)
              = Inr (hmm_fit lib best (random_state s) (X s) (lengths s)))"
proof -
  let ?logL = "dic_logL lib s"
  let ?cands = "successful ?logL s"
  let ?g = "\<lambda>n. projr (?logL n)"
  let ?sum = "sum_list (map ?g ?cands)"
  let ?M = "int (length ?cands) - 1"
  let ?val = "\<lambda>n. ?g n - (?sum - ?g n) / real_of_int ?M"
  have goal: "\<exists>best\<in>set ?cands. fst (dic_best lib s) = Inr best
          \<and> (\<forall>n\<in>set ?cands. DIC ?logL ?cands n \<le> DIC ?logL ?cands best)
          \<and> fst (select_DIC lib s)
              = Inr (hmm_fit lib best (random_state s) (X s) (lengths s))"
    if three: "3 \<le> length ?cands"
  proof -
    from three have ne: "?cands \<noteq> []" by auto
    have dist: "distinct ?cands"
      using successful_sorted [of ?logL s] by (simp add: strict_sorted_iff)
    have M: "real_of_int ?M = real (length ?cands) - 1" by simp
    have dic: "DIC ?logL ?cands n = ?val n" if "n \<in> set ?cands" for n
      unfolding DIC_def sum_others [OF dist that, of ?g] M by simp
    have "fst (dic_best lib s) =
        at_argmax ?cands (map (\<lambda>l. l - (?sum - l) / real_of_int ?M) (map ?g ?cands))"
      using three unfolding dic_best_eq by (simp add: Let_def dic_choose_def)
    then have best: "fst (dic_best lib s) = at_argmax ?cands (map ?val ?cands)"
      by (simp add: comp_def)
    from pick_max [OF ne successful_sorted, of ?val] obtain b where
      b: "at_argmax ?cands (map ?val ?cands) = Inr b" "b \<in> set ?cands"
      "\<forall>n\<in>set ?cands. ?val n \<le> ?val b" by blast
    have "\<forall>n\<in>set ?cands. DIC ?logL ?cands n \<le> DIC ?logL ?cands b"
      using b dic by simp
    with b best show ?thesis by (auto simp: select_DIC_fst)
  qed
  then show ?thesis by (simp add: Let_def)
qed

text \<open>Three successes with log-likelihoods -10, -5, -7: candidate 3 has the greatest DIC.\<close>

theorem select_DIC_maximizes_witness:
  "successful (dic_logL (table_library (\<lambda>n. True) (logL_table (Some (- 10)) (Some (- 5)) (Some (- 7))) 3) two_examples)
      two_examples = [2, 3, 4]
   \<and> fst (dic_best (table_library (\<lambda>n. True) (logL_table (Some (- 10)) (Some (- 5)) (Some (- 7))) 3) two_examples)
       = Inr 3
   \<and> DIC (dic_logL (table_library (\<lambda>n. True) (logL_table (Some (- 10)) (Some (- 5)) (Some (- 7))) 3) two_examples)
       [2, 3, 4] 2
     \<le> DIC (dic_logL (table_library (\<lambda>n. True) (logL_table (Some (- 10)) (Some (- 5)) (Some (- 7))) 3) two_examples)
       [2, 3, 4] 3
   \<and> fst (select_DIC (table_library (\<lambda>n. True) (logL_table (Some (- 10)) (Some (- 5)) (Some (- 7))) 3) two_examples)
       = Inr (Some (3, [[1], [2]]))"
proof -
  let ?lib = "table_library (\<lambda>n. True) (logL_table (Some (- 10)) (Some (- 5)) (Some (- 7))) 3"
  have cands: "successful (dic_logL ?lib two_examples) two_examples = [2, 3, 4]"
    by (simp add: run_defs dic_run_defs)
  have best: "fst (dic_best ?lib two_examples) = Inr 3"
    by (simp add: run_defs dic_run_defs)
  from select_DIC_maximizes [of ?lib two_examples] cands best
  have "(\<forall>n\<in>set [2, 3, 4]. DIC (dic_logL ?lib two_examples) [2, 3, 4] n
            \<le> DIC (dic_logL ?lib two_examples) [2, 3, 4] 3)
        \<and> fst (select_DIC ?lib two_examples)
            = Inr (hmm_fit ?lib 3 (random_state two_examples) (X two_examples) (lengths two_examples))"
    by (auto simp: Let_def)
  then have "DIC (dic_logL ?lib two_examples) [2, 3, 4] 2 \<le> DIC (dic_logL ?lib two_examples) [2, 3, 4] 3"
    and "fst (select_DIC ?lib two_examples) = Inr (Some (3, [[1], [2]]))"
    by (simp_all add: two_examples_def word_selector_def table_library_def)
  with cands best show ?thesis by simp
qed

text \<open>
  With exactly two successes the first one is taken although the second has the greater
  DIC: log-likelihoods -10 (n = 2) and -5 (n = 3) give DIC -5 and 5, and 2 is selected.
\<close>

theorem select_DIC_two_successes_counterexample:
  "successful (dic_logL (table_library (\<lambda>n. True) (logL_table (Some (- 10)) (Some (- 5)) None) 3) two_examples)
      two_examples = [2, 3]
   \<and> fst (dic_best (table_library (\<lambda>n. True) (logL_table (Some (- 10)) (Some (- 5)) None) 3) two_examples)
       = Inr 2
   \<and> DIC (dic_logL (table_library (\<lambda>n. True) (logL_table (Some (- 10)) (Some (- 5)) None) 3) two_examples)
       [2, 3] 2
     < DIC (dic_logL (table_library (\<lambda>n. True) (logL_table (Some (- 10)) (Some (- 5)) None) 3) two_examples)
       [2, 3] 3"
  by (simp add: run_defs dic_run_defs DIC_def)

text \<open>
  C3. With exactly two successful candidates SelectorDIC refits at the first of them,
  whatever their log-likelihoods are; with one or none it refits at \<open>n_constant\<close>.
\<close>

theorem select_DIC_two_or_fewer:
  "let cands = successful (dic_logL lib s) s
   in (length cands = 2 \<longrightarrow>
         fst (dic_best lib s) = Inr (hd cands)
         \<and> fst (select_DIC lib s)
             = Inr (hmm_fit lib (hd cands) (random_state s) (X s) (lengths s)))
      \<and> (length cands \<le> 1 \<longrightarrow>
         fst (dic_best lib s) = Inr (n_constant s)
         \<and> fst (select_DIC lib s)
             = Inr (hmm_fit lib (n_constant s) (random_state s) (X s) (lengths s)))"
proof -
  let ?cands = "successful (dic_logL lib s) s"
  have two: "fst (dic_best lib s) = Inr (hd ?cands)" if "length ?cands = 2"
    using that unfolding dic_best_eq
    by (cases ?cands) (auto simp: Let_def dic_choose_def getitem_def)
  have few: "fst (dic_best lib s) = Inr (n_constant s)" if "length ?cands \<le> 1"
    using that unfolding dic_best_eq by (auto simp: Let_def dic_choose_def)
  from two few show ?thesis by (simp add: Let_def select_DIC_fst)
qed

text \<open>
  Two successes (2 and 4, the second with the greater log-likelihood): 2 is selected.
  One success (only 2 can be fit): \<open>n_constant = 3\<close> is selected and its fit fails.
\<close>

theorem select_DIC_two_or_fewer_witness:
  "length (successful (dic_logL (table_library (\<lambda>n. True) (logL_table (Some (- 10)) None (Some (- 5))) 3) two_examples)
      two_examples) = 2
   \<and> fst (dic_best (table_library (\<lambda>n. True) (logL_table (Some (- 10)) None (Some (- 5))) 3) two_examples)
       = Inr 2
   \<and> fst (select_DIC (table_library (\<lambda>n. True) (logL_table (Some (- 10)) None (Some (- 5))) 3) two_examples)
       = Inr (Some (2, [[1], [2]]))
   \<and> length (successful (dic_logL (table_library (\<lambda>n. n = 2) (logL_table (Some (- 10)) (Some (- 5)) (Some (- 7))) 3) two_examples)
      two_examples) \<le> 1
   \<and> fst (dic_best (table_library (\<lambda>n. n = 2) (logL_table (Some (- 10)) (Some (- 5)) (Some (- 7))) 3) two_examples)
       = Inr 3
   \<and> fst (select_DIC (table_library (\<lambda>n. n = 2) (logL_table (Some (- 10)) (Some (- 5)) (Some (- 7))) 3) two_examples)
       = Inr None"
proof -
  let ?two = "table_library (\<lambda>n. True) (logL_table (Some (- 10)) None (Some (- 5))) 3"
  let ?one = "table_library (\<lambda>n. n = 2) (logL_table (Some (- 10)) (Some (- 5)) (Some (- 7))) 3"
  have c2: "successful (dic_logL ?two two_examples) two_examples = [2, 4]"
    by (simp add: run_defs dic_run_defs)
  have c1: "successful (dic_logL ?one two_examples) two_examples = [2]"
    by (simp add: run_defs dic_run_defs)
  from select_DIC_two_or_fewer [of ?two two_examples] c2
  have two: "fst (dic_best ?two two_examples) = Inr 2"
    "fst (select_DIC ?two two_examples) = Inr (Some (2, [[1], [2]]))"
    by (simp_all add: Let_def two_examples_def word_selector_def table_library_def)
  from select_DIC_two_or_fewer [of ?one two_examples] c1
  have one: "fst (dic_best ?one two_examples) = Inr 3"
    "fst (select_DIC ?one two_examples) = Inr None"
    by (simp_all add: Let_def two_examples_def word_selector_def table_library_def)
  from c1 c2 one two show ?thesis by simp
qed

text \<open>
  C4 (as amended). When exactly one candidate fits and scores, SelectorDIC refits at
  \<open>n_constant\<close> and returns what that fit returned, exactly as it does when no
  candidate succeeds: \<open>M = 0\<close> and \<open>M = -1\<close> both take the last branch.
\<close>

theorem select_DIC_one_or_none:
  "let cands = successful (dic_logL lib s) s
   in (length cands = 1 \<longrightarrow>
         fst (dic_best lib s) = Inr (n_constant s)
         \<and> fst (select_DIC lib s)
             = Inr (hmm_fit lib (n_constant s) (random_state s) (X s) (lengths s)))
      \<and> (cands = [] \<longrightarrow>
         fst (dic_best lib s) = Inr (n_constant s)
         \<and> fst (select_DIC lib s)
             = Inr (hmm_fit lib (n_constant s) (random_state s) (X s) (lengths s)))"
proof -
  let ?cands = "successful (dic_logL lib s) s"
  have best: "fst (dic_best lib s) = Inr (n_constant s)" if "length ?cands = 1 \<or> ?cands = []"
  proof -
    from that have "int (length ?cands) - 1 \<le> 0" by auto
    then show ?thesis unfolding dic_best_eq by (simp add: Let_def dic_choose_def)
  qed
  then have "fst (select_DIC lib s)
      = Inr (hmm_fit lib (n_constant s) (random_state s) (X s) (lengths s))"
    if "length ?cands = 1 \<or> ?cands = []"
    using that by (simp add: select_DIC_fst)
  with best show ?thesis by (simp add: Let_def)
qed

text \<open>
  Every fit succeeds.  When only the 4-state model can be scored, and when no model can
  be scored, the 3-state model is returned.
\<close>

theorem select_DIC_one_or_none_witness:
  "length (successful (dic_logL (table_library (\<lambda>n. True) (logL_table None None (Some (- 7))) 3) two_examples)
      two_examples) = 1
   \<and> successful (dic_logL (table_library (\<lambda>n. True) (logL_table None None (Some (- 7))) 3) two_examples)
      two_examples = [4]
   \<and> fst (dic_best (table_library (\<lambda>n. True) (logL_table None None (Some (- 7))) 3) two_examples)
       = Inr 3
   \<and> fst (select_DIC (table_library (\<lambda>n. True) (logL_table None None (Some (- 7))) 3) two_examples)
       = Inr (Some (3, [[1], [2]]))
   \<and> successful (dic_logL (table_library (\<lambda>n. True) (logL_table None None None) 3) two_examples)
      two_examples = []
   \<and> fst (dic_best (table_library (\<lambda>n. True) (logL_table None None None) 3) two_examples)
       = Inr 3
   \<and> fst (select_DIC (table_library (\<lambda>n. True) (logL_table None None None) 3) two_examples)
       = Inr (Some (3, [[1], [2]]))"
proof -
  let ?one = "table_library (\<lambda>n. True) (logL_table None None (Some (- 7))) 3"
  let ?none = "table_library (\<lambda>n. True) (logL_table None None None) 3"
  have c1: "successful (dic_logL ?one two_examples) two_examples = [4]"
    by (simp add: run_defs dic_run_defs)
  have c0: "successful (dic_logL ?none two_examples) two_examples = []"
    by (simp add: run_defs dic_run_defs)
  from select_DIC_one_or_none [of ?one two_examples] c1
  have one: "fst (dic_best ?one two_examples) = Inr 3"
    "fst (select_DIC ?one two_examples) = Inr (Some (3, [[1], [2]]))"
    by (simp_all add: Let_def two_examples_def word_selector_def table_library_def)
  from select_DIC_one_or_none [of ?none two_examples] c0
  have none: "fst (dic_best ?none two_examples) = Inr 3"
    "fst (select_DIC ?none two_examples) = Inr (Some (3, [[1], [2]]))"
    by (simp_all add: Let_def two_examples_def word_selector_def table_library_def)
  from c1 c0 one none show ?thesis by simp
qed

text \<open>
  The single successful candidate is not the one refit: only candidate 2 can be scored,
  and the model returned has \<open>n_constant = 3\<close> states.
\<close>

theorem select_DIC_single_success_counterexample:
  "successful (dic_logL (table_library (\<lambda>n. True) (logL_table (Some (- 10)) None None) 3) two_examples)
      two_examples = [2]
   \<and> n_constant two_examples = 3
   \<and> fst (dic_best (table_library (\<lambda>n. True) (logL_table (Some (- 10)) None None) 3) two_examples)
       = Inr 3
   \<and> fst (select_DIC (table_library (\<lambda>n. True) (logL_table (Some (- 10)) None None) 3) two_examples)
       = Inr (Some (3, [[1], [2]]))"
  by (simp add: run_defs dic_run_defs)

subsection \<open>Auxiliary facts: the cross-validation sweep\<close>

lemma cv_folds_buffers:
  "fst (cv_folds lib n folds (s\<lparr>X := Xs, lengths := ls\<rparr>) scores) = fst (cv_folds lib n folds s scores)"
proof (cases folds)
  case Nil
  then show ?thesis by simp
next
  case (Cons f rest)
  obtain tr te where f: "f = (tr, te)" by (cases f)
  show ?thesis unfolding Cons f
    by (simp add: base_model_def split_beta Let_def split: sum.splits)
qed

lemma cv_folds_state:
  "(fst (snd (cv_folds lib n folds s scores)))\<lparr>X := X s, lengths := lengths s\<rparr> = s"
proof (induction folds arbitrary: s scores)
  case Nil
  then show ?case by simp
next
  case (Cons f rest)
  obtain tr te where f: "f = (tr, te)" by (cases f)
  show ?case
  proof (cases "combine_sequences tr (sequences s)")
    case (Inl e)
    then show ?thesis by (simp add: f)
  next
    case (Inr p)
    obtain Xt lt where p: "p = (Xt, lt)" by (cases p)
    let ?s1 = "s\<lparr>X := Xt, lengths := lt\<rparr>"
    have ih: "(fst (snd (cv_folds lib n rest ?s1 sc)))\<lparr>X := Xt, lengths := lt\<rparr> = ?s1" for sc
      using Cons.IH [of ?s1 sc] by simp
    have restore: "s'\<lparr>X := X s, lengths := lengths s\<rparr> = s"
      if "s'\<lparr>X := Xt, lengths := lt\<rparr> = ?s1" for s'
    proof -
      from that have "(s'\<lparr>X := Xt, lengths := lt\<rparr>)\<lparr>X := X s, lengths := lengths s\<rparr>
                        = ?s1\<lparr>X := X s, lengths := lengths s\<rparr>" by simp
      then show ?thesis by simp
    qed
    show ?thesis using Inr p f ih restore
      by (simp add: split_beta Let_def split: sum.splits)
  qed
qed

lemma cv_candidate_few:
  "length (sequences s) \<le> 2 \<Longrightarrow>
   cv_candidate lib s n = (dic_logL lib s n, s, snd (dic_candidate lib s n))"
  by (simp add: cv_candidate_def dic_logL_def dic_candidate_def split_beta Let_def)

lemma cv_candidate_state:
  "(fst (snd (cv_candidate lib s n)))\<lparr>X := X s, lengths := lengths s\<rparr> = s"
  using cv_folds_state [where lib = lib and n = n and s = s and scores = "[]"]
  by (simp add: cv_candidate_def split_beta Let_def split: sum.splits)

lemma cv_score_buffers:
  "2 < length (sequences s) \<Longrightarrow> cv_score lib (s\<lparr>X := Xs, lengths := ls\<rparr>) n = cv_score lib s n"
  using cv_folds_buffers [where lib = lib and n = n and s = s and Xs = Xs and ls = ls and scores = "[]"]
  by (simp add: cv_score_def cv_candidate_def split_beta Let_def split: sum.splits)

lemma cv_score_reached:
  assumes "s'\<lparr>X := X s, lengths := lengths s\<rparr> = s"
    and "length (sequences s) \<le> 2 \<longrightarrow> s' = s"
  shows "cv_score lib s' n = cv_score lib s n"
proof (cases "length (sequences s) \<le> 2")
  case True
  with assms show ?thesis by simp
next
  case False
  from assms(1) have "(s'\<lparr>X := X s, lengths := lengths s\<rparr>)\<lparr>X := X s', lengths := lengths s'\<rparr>
      = s\<lparr>X := X s', lengths := lengths s'\<rparr>" by simp
  then have "s' = s\<lparr>X := X s', lengths := lengths s'\<rparr>" by simp
  with cv_score_buffers [where s = s and lib = lib and Xs = "X s'" and ls = "lengths s'" and n = n] False show ?thesis by simp
qed

lemma cv_candidate_reached:
  assumes "s'\<lparr>X := X s, lengths := lengths s\<rparr> = s"
    and "length (sequences s) \<le> 2 \<longrightarrow> s' = s"
  shows "(fst (snd (cv_candidate lib s' n)))\<lparr>X := X s, lengths := lengths s\<rparr> = s
         \<and> (length (sequences s) \<le> 2 \<longrightarrow> fst (snd (cv_candidate lib s' n)) = s)"
proof -
  let ?s1 = "fst (snd (cv_candidate lib s' n))"
  have "?s1\<lparr>X := X s', lengths := lengths s'\<rparr> = s'" by (rule cv_candidate_state)
  then have "(?s1\<lparr>X := X s', lengths := lengths s'\<rparr>)\<lparr>X := X s, lengths := lengths s\<rparr>
      = s'\<lparr>X := X s, lengths := lengths s\<rparr>" by simp
  with assms(1) have a: "?s1\<lparr>X := X s, lengths := lengths s\<rparr> = s" by simp
  have b: "?s1 = s" if "length (sequences s) \<le> 2"
    using that assms(2) cv_candidate_few [where s = s and lib = lib and n = n] by simp
  from a b show ?thesis by simp
qed

lemma cv_loop_reached:
  assumes "s'\<lparr>X := X s, lengths := lengths s\<rparr> = s"
    and "length (sequences s) \<le> 2 \<longrightarrow> s' = s"
  shows "fst (cv_loop lib ns s' (an, sc)) =
           (an @ filter (\<lambda>n. \<not> isl (cv_score lib s n)) ns,
            sc @ map (\<lambda>n. projr (cv_score lib s n)) (filter (\<lambda>n. \<not> isl (cv_score lib s n)) ns))
         \<and> (fst (snd (cv_loop lib ns s' (an, sc))))\<lparr>X := X s, lengths := lengths s\<rparr> = s
         \<and> (length (sequences s) \<le> 2 \<longrightarrow> fst (snd (cv_loop lib ns s' (an, sc))) = s)"
  using assms
proof (induction ns arbitrary: s' an sc)
  case Nil
  then show ?case by simp
next
  case (Cons n ns)
  let ?c = "cv_candidate lib s' n"
  let ?s1 = "fst (snd ?c)"
  have sc: "fst ?c = cv_score lib s n"
    using cv_score_reached [OF Cons.prems, where lib = lib and n = n] by (simp add: cv_score_def)
  from cv_candidate_reached [OF Cons.prems, where lib = lib and n = n]
  have r1: "?s1\<lparr>X := X s, lengths := lengths s\<rparr> = s"
    and r2: "length (sequences s) \<le> 2 \<longrightarrow> ?s1 = s" by simp_all
  note ih = Cons.IH [OF r1 r2]
  show ?case
  proof (cases "cv_score lib s n")
    case (Inl e)
    with sc ih [of an sc] show ?thesis by (simp add: split_beta Let_def)
  next
    case (Inr v)
    with sc ih [of "an @ [n]" "sc @ [v]"] show ?thesis by (simp add: split_beta Let_def)
  qed
qed

lemma cv_loop_start:
  "fst (cv_loop lib [min_n_components s .. max_n_components s] s ([], [])) =
     (successful (cv_score lib s) s,
      map (\<lambda>n. projr (cv_score lib s n)) (successful (cv_score lib s) s))
   \<and> (fst (snd (cv_loop lib [min_n_components s .. max_n_components s] s ([], []))))
        \<lparr>X := X s, lengths := lengths s\<rparr> = s
   \<and> (length (sequences s) \<le> 2 \<longrightarrow>
        fst (snd (cv_loop lib [min_n_components s .. max_n_components s] s ([], []))) = s)"
  using cv_loop_reached [where s = s and s' = s and lib = lib and ns = "[min_n_components s .. max_n_components s]" and an = "[]" and sc = "[]"]
  by (simp add: successful_def)

lemma cv_best_eq:
  "fst (cv_best lib s) =
     (let cands = successful (cv_score lib s) s in
      if cands \<noteq> [] then at_argmax cands (map (\<lambda>n. projr (cv_score lib s n)) cands)
      else Inr (n_constant s))"
proof -
  let ?l = "cv_loop lib [min_n_components s .. max_n_components s] s ([], [])"
  from cv_loop_start [where lib = lib and s = s]
  have f: "fst ?l = (successful (cv_score lib s) s,
      map (\<lambda>n. projr (cv_score lib s n)) (successful (cv_score lib s) s))"
    and st: "(fst (snd ?l))\<lparr>X := X s, lengths := lengths s\<rparr> = s" by simp_all
  from st have "n_constant (fst (snd ?l)) = n_constant s"
    by (metis selector.select_convs(4) selector.surjective selector.update_convs(2,3))
  with f show ?thesis
    by (simp add: cv_best_def split_beta Let_def)
qed

lemma cv_best_state:
  "fst (snd (cv_best lib s)) = fst (snd (cv_loop lib [min_n_components s .. max_n_components s] s ([], [])))"
  by (simp add: cv_best_def split_beta Let_def)

lemma select_CV_state_few:
  "length (sequences s) \<le> 2 \<Longrightarrow> fst (snd (select_CV lib s)) = s"
  using cv_loop_start [where lib = lib and s = s]
  by (simp add: select_CV_def cv_best_def split_beta Let_def)

lemma select_CV_fst:
  "fst (cv_best lib s) = Inr best \<Longrightarrow>
   fst (select_CV lib s) =
     Inr (hmm_fit lib best (random_state s)
            (X (fst (snd (select_CV lib s)))) (lengths (fst (snd (select_CV lib s)))))"
proof -
  assume b: "fst (cv_best lib s) = Inr best"
  let ?s' = "fst (snd (cv_best lib s))"
  have st: "?s'\<lparr>X := X s, lengths := lengths s\<rparr> = s"
    using cv_loop_start [where lib = lib and s = s] by (simp add: cv_best_state)
  then have "random_state ?s' = random_state s"
    by (metis selector.select_convs(7) selector.surjective selector.update_convs(2,3))
  with b show ?thesis
    by (simp add: select_CV_def refit_def base_model_def split_beta Let_def)
qed

lemma dic_candidate_calls:
  "snd (dic_candidate lib s n) =
     Fit n (X s) (lengths s) #
       (case hmm_fit lib n (random_state s) (X s) (lengths s) of
          None \<Rightarrow> [] | Some m \<Rightarrow> [Score m (X s) (lengths s)])"
  by (simp add: dic_candidate_def base_model_def model_score_def split_beta split: option.splits)

lemma dic_logL_eq:
  "dic_logL lib s n =
     (case hmm_fit lib n (random_state s) (X s) (lengths s) of
        None \<Rightarrow> Inl AttributeError
      | Some m \<Rightarrow>
          (case hmm_score lib m (X s) (lengths s) of
             None \<Rightarrow> Inl LibraryError | Some logL \<Rightarrow> Inr logL))"
  by (simp add: dic_logL_def dic_candidate_def base_model_def model_score_def split_beta
           split: option.splits)

lemma cv_loop_calls_few:
  "length (sequences s) \<le> 2 \<Longrightarrow>
   snd (snd (cv_loop lib ns s acc)) = concat (map (\<lambda>n. snd (dic_candidate lib s n)) ns)"
  by (induction ns arbitrary: acc) (auto simp: cv_candidate_few split_beta Let_def split: sum.splits)

lemmas cv_run_defs =
  select_CV_def cv_best_def cv_candidate_def KFold_split_def fold_sizes_def
  combine_sequences_def np_mean_def refit_def at_argmax_def np_argmax_def getitem_def
  split_beta

lemma upto_2_3: "[2 .. 3::int] = [2, 3]"
  by (simp add: upto_rec_numeral)

lemma upt_3: "[0..<3] = [0, 1, 2]"
  by (simp add: upt_conv_Cons)

lemma upt_5: "[0..<5] = [0, 1, 2, 3, 4]"
  by (simp add: upt_conv_Cons)

subsection \<open>SelectorCV\<close>

text \<open>
  C8. For a word with at most two example sequences SelectorCV never calls the splitter:
  the library calls of \<^verbatim>\<open>select\<close> are, for each candidate of the range in order, one
  fit on the selector's \<open>X\<close> and \<open>lengths\<close> followed (when the fit succeeded) by one
  score of that model on the same data, and then the final fit at the selected count on
  the same data.  The selector is left unchanged, so a second \<^verbatim>\<open>select\<close> returns the same
  result, in particular the same selected state count.
\<close>

theorem select_CV_few_sequences:
  assumes few: "length (sequences s) \<le> 2"
  shows "\<exists>best. fst (cv_best lib s) = Inr best
      \<and> select_CV lib s =
          (Inr (hmm_fit lib best (random_state s) (X s) (lengths s)), s,
           concat (map (\<lambda>n. Fit n (X s) (lengths s) #
                         (case hmm_fit lib n (random_state s) (X s) (lengths s) of
                            None \<Rightarrow> [] | Some m \<Rightarrow> [Score m (X s) (lengths s)]))
                    [min_n_components s .. max_n_components s])
           @ [Fit best (X s) (lengths s)])
      \<and> (\<forall>n. cv_score lib s n =
               (case hmm_fit lib n (random_state s) (X s) (lengths s) of
                  None \<Rightarrow> Inl AttributeError
                | Some m \<Rightarrow>
                    (case hmm_score lib m (X s) (lengths s) of
                       None \<Rightarrow> Inl LibraryError | Some logL \<Rightarrow> Inr logL)))
      \<and> fst (cv_best lib (fst (snd (select_CV lib s)))) = Inr best
      \<and> select_CV lib (fst (snd (select_CV lib s))) = select_CV lib s"
proof -
  let ?rng = "[min_n_components s .. max_n_components s]"
  let ?cands = "successful (cv_score lib s) s"
  let ?l = "cv_loop lib ?rng s ([], [])"
  have st: "fst (snd ?l) = s"
    using cv_loop_start [where lib = lib and s = s] few by simp
  have calls: "snd (snd ?l) = concat (map (\<lambda>n. snd (dic_candidate lib s n)) ?rng)"
    using few by (rule cv_loop_calls_few)
  obtain best where best: "fst (cv_best lib s) = Inr best"
  proof (cases "?cands = []")
    case True
    then show ?thesis using that by (simp add: cv_best_eq)
  next
    case False
    from pick_max [OF False successful_sorted, of "\<lambda>n. projr (cv_score lib s n)"]
    show ?thesis using that False by (auto simp: cv_best_eq Let_def)
  qed
  have best3: "cv_best lib s = (Inr best, s, snd (snd ?l))"
    using best st by (simp add: cv_best_def split_beta Let_def)
  have sel: "select_CV lib s =
          (Inr (hmm_fit lib best (random_state s) (X s) (lengths s)), s,
           concat (map (\<lambda>n. Fit n (X s) (lengths s) #
                         (case hmm_fit lib n (random_state s) (X s) (lengths s) of
                            None \<Rightarrow> [] | Some m \<Rightarrow> [Score m (X s) (lengths s)]))
                    ?rng)
           @ [Fit best (X s) (lengths s)])"
    unfolding select_CV_def best3 calls
    by (simp add: refit_def base_model_def dic_candidate_calls)
  have score: "cv_score lib s n =
               (case hmm_fit lib n (random_state s) (X s) (lengths s) of
                  None \<Rightarrow> Inl AttributeError
                | Some m \<Rightarrow>
                    (case hmm_score lib m (X s) (lengths s) of
                       None \<Rightarrow> Inl LibraryError | Some logL \<Rightarrow> Inr logL))" for n
    using few by (simp add: cv_score_def cv_candidate_few dic_logL_eq)
  have again: "fst (snd (select_CV lib s)) = s" by (simp add: sel)
  from best sel score again show ?thesis by simp
qed

text \<open>
  Two sequences, candidate 3 cannot be fit: six library calls, none of them a split, and
  state count 4 both times.
\<close>

theorem select_CV_few_sequences_witness:
  "length (sequences two_examples) \<le> 2
   \<and> select_CV (table_library (\<lambda>n. n \<noteq> 3) (logL_table (Some (- 10)) (Some (- 5)) (Some (- 7))) 3) two_examples
     = (Inr (Some (4, [[1], [2]])), two_examples,
        [Fit 2 [[1], [2]] [1, 1], Score (2, [[1], [2]]) [[1], [2]] [1, 1],
         Fit 3 [[1], [2]] [1, 1],
         Fit 4 [[1], [2]] [1, 1], Score (4, [[1], [2]]) [[1], [2]] [1, 1],
         Fit 4 [[1], [2]] [1, 1]])
   \<and> select_CV (table_library (\<lambda>n. n \<noteq> 3) (logL_table (Some (- 10)) (Some (- 5)) (Some (- 7))) 3)
       (fst (snd (select_CV (table_library (\<lambda>n. n \<noteq> 3) (logL_table (Some (- 10)) (Some (- 5)) (Some (- 7))) 3) two_examples)))
     = select_CV (table_library (\<lambda>n. n \<noteq> 3) (logL_table (Some (- 10)) (Some (- 5)) (Some (- 7))) 3) two_examples"
proof -
  let ?lib = "table_library (\<lambda>n. n \<noteq> 3) (logL_table (Some (- 10)) (Some (- 5)) (Some (- 7))) 3"
  have few: "length (sequences two_examples) \<le> 2"
    by (simp add: two_examples_def word_selector_def)
  have best: "fst (cv_best ?lib two_examples) = Inr 4"
    by (simp add: run_defs cv_best_def cv_candidate_def at_argmax_def np_argmax_def getitem_def
          split_beta)
  from select_CV_few_sequences [OF few, of ?lib] best
  have "select_CV ?lib two_examples =
          (Inr (hmm_fit ?lib 4 (random_state two_examples) (X two_examples) (lengths two_examples)),
           two_examples,
           concat (map (\<lambda>n. Fit n (X two_examples) (lengths two_examples) #
                         (case hmm_fit ?lib n (random_state two_examples) (X two_examples)
                                 (lengths two_examples) of
                            None \<Rightarrow> [] | Some m \<Rightarrow> [Score m (X two_examples) (lengths two_examples)]))
                    [min_n_components two_examples .. max_n_components two_examples])
           @ [Fit 4 (X two_examples) (lengths two_examples)])"
    and again: "select_CV ?lib (fst (snd (select_CV ?lib two_examples))) = select_CV ?lib two_examples"
    by auto
  then have "select_CV ?lib two_examples
     = (Inr (Some (4, [[1], [2]])), two_examples,
        [Fit 2 [[1], [2]] [1, 1], Score (2, [[1], [2]]) [[1], [2]] [1, 1],
         Fit 3 [[1], [2]] [1, 1],
         Fit 4 [[1], [2]] [1, 1], Score (4, [[1], [2]]) [[1], [2]] [1, 1],
         Fit 4 [[1], [2]] [1, 1]])"
    by (simp add: two_examples_def word_selector_def table_library_def upto_2_4)
  with few again show ?thesis by simp
qed

text \<open>
  C1. The claim is that the final fit of SelectorCV uses the word's full \<open>X\<close> and
  \<open>lengths\<close>.  With three sequences and three folds (and with five sequences and five
  folds) the final fit is made on the training part of the last fold, which the fold loop
  left in \<^verbatim>\<open>self.X\<close> and \<^verbatim>\<open>self.lengths\<close>: the returned model was trained on the
  sequences without the last one.
\<close>

theorem select_CV_refits_on_last_training_fold:
  "X three_examples = [[1], [2], [3]]
   \<and> KFold_split 3 (length (sequences three_examples)) = Inr [([1, 2], [0]), ([0, 2], [1]), ([0, 1], [2])]
   \<and> combine_sequences [0, 1] (sequences three_examples) = Inr ([[1], [2]], [1, 1])
   \<and> fst (cv_best (table_library (\<lambda>n. True) (logL_table (Some (- 10)) (Some (- 5)) None) 3) three_examples)
       = Inr 3
   \<and> fst (select_CV (table_library (\<lambda>n. True) (logL_table (Some (- 10)) (Some (- 5)) None) 3) three_examples)
       = Inr (Some (3, [[1], [2]]))
   \<and> X (fst (snd (select_CV (table_library (\<lambda>n. True) (logL_table (Some (- 10)) (Some (- 5)) None) 3) three_examples)))
       = [[1], [2]]
   \<and> last (snd (snd (select_CV (table_library (\<lambda>n. True) (logL_table (Some (- 10)) (Some (- 5)) None) 3) three_examples)))
       = Fit 3 [[1], [2]] [1, 1]
   \<and> X five_examples = [[1], [2], [3], [4], [5]]
   \<and> fst (select_CV (table_library (\<lambda>n. True) (logL_table (Some (- 10)) (Some (- 5)) None) 5) five_examples)
       = Inr (Some (3, [[1], [2], [3], [4]]))
   \<and> last (snd (snd (select_CV (table_library (\<lambda>n. True) (logL_table (Some (- 10)) (Some (- 5)) None) 5) five_examples)))
       = Fit 3 [[1], [2], [3], [4]] [1, 1, 1, 1]"
  by (simp add: three_examples_def five_examples_def word_selector_def table_library_def
        logL_table_def base_model_def model_score_def upto_2_3 upt_3 upt_5 cv_run_defs Let_def)

subsection \<open>All variants\<close>

text \<open>
  C9 (as amended). No exception of a candidate's fit or score leaves \<^verbatim>\<open>select\<close>:
  SelectorBIC raises exactly when the unpacking of \<open>X.shape\<close> does, SelectorDIC and
  SelectorCV never raise.  In each variant the candidates kept by the sweep are exactly
  the candidates of the range whose fit and score succeed.  SelectorBIC and SelectorCV
  refit at one of them when there is one and at \<open>n_constant\<close> otherwise; SelectorDIC
  refits at one of them when there are at least two and at \<open>n_constant\<close> when there is
  none.  The result is what the final fit returned, \<open>None\<close> when it failed.
\<close>

theorem candidate_failures_do_not_escape:
  "(isl (fst (select_BIC lib s)) \<longleftrightarrow> isl (shape (X s)))
   \<and> (shape (X s) = Inr (N, d) \<longrightarrow>
        fst (fst (bic_loop lib s N d [min_n_components s .. max_n_components s] ([], [])))
          = successful (bic_score lib s N d) s
        \<and> (\<exists>best. fst (bic_best lib s) = Inr best
              \<and> (if successful (bic_score lib s N d) s = [] then best = n_constant s
                  else best \<in> set (successful (bic_score lib s N d) s))
              \<and> fst (select_BIC lib s)
                  = Inr (hmm_fit lib best (random_state s) (X s) (lengths s))))
   \<and> fst (fst (dic_loop lib s [min_n_components s .. max_n_components s] ([], [], 0)))
       = successful (dic_logL lib s) s
   \<and> (\<exists>best. fst (dic_best lib s) = Inr best
         \<and> (successful (dic_logL lib s) s = [] \<longrightarrow> best = n_constant s)
         \<and> (2 \<le> length (successful (dic_logL lib s) s) \<longrightarrow>
              best \<in> set (successful (dic_logL lib s) s))
         \<and> fst (select_DIC lib s)
             = Inr (hmm_fit lib best (random_state s) (X s) (lengths s)))
   \<and> fst (fst (cv_loop lib [min_n_components s .. max_n_components s] s ([], [])))
       = successful (cv_score lib s) s
   \<and> (\<exists>best. fst (cv_best lib s) = Inr best
         \<and> (if successful (cv_score lib s) s = [] then best = n_constant s
             else best \<in> set (successful (cv_score lib s) s))
         \<and> fst (select_CV lib s)
             = Inr (hmm_fit lib best (random_state s)
                      (X (fst (snd (select_CV lib s)))) (lengths (fst (snd (select_CV lib s))))))"
proof -
  let ?rng = "[min_n_components s .. max_n_components s]"
  have bic_raise: "isl (fst (select_BIC lib s)) \<longleftrightarrow> isl (shape (X s))"
  proof (cases "shape (X s)")
    case (Inl e)
    then show ?thesis by (simp add: select_BIC_def bic_best_def refit_def)
  next
    case (Inr p)
    obtain N' d' where p: "p = (N', d')" by (cases p)
    let ?c = "successful (bic_score lib s N' d') s"
    have "\<exists>best. fst (bic_best lib s) = Inr best"
    proof (cases "?c = []")
      case True
      then show ?thesis using bic_best_eq [of s N' d' lib] Inr p by simp
    next
      case False
      from pick_min [OF False successful_sorted, of "\<lambda>n. projr (bic_score lib s N' d' n)"]
      show ?thesis using bic_best_eq [of s N' d' lib] Inr p False by (auto simp: Let_def)
    qed
    then show ?thesis using Inr by (auto simp: select_BIC_fst)
  qed
  have bic: "fst (fst (bic_loop lib s N d ?rng ([], []))) = successful (bic_score lib s N d) s
        \<and> (\<exists>best. fst (bic_best lib s) = Inr best
              \<and> (if successful (bic_score lib s N d) s = [] then best = n_constant s
                  else best \<in> set (successful (bic_score lib s N d) s))
              \<and> fst (select_BIC lib s)
                  = Inr (hmm_fit lib best (random_state s) (X s) (lengths s)))"
    if sh: "shape (X s) = Inr (N, d)"
  proof -
    let ?c = "successful (bic_score lib s N d) s"
    have kept: "fst (fst (bic_loop lib s N d ?rng ([], []))) = ?c"
      by (simp add: bic_loop_fst successful_def)
    have "\<exists>best. fst (bic_best lib s) = Inr best
              \<and> (if ?c = [] then best = n_constant s else best \<in> set ?c)"
    proof (cases "?c = []")
      case True
      then show ?thesis using bic_best_eq [OF sh, of lib] by simp
    next
      case False
      from pick_min [OF False successful_sorted, of "\<lambda>n. projr (bic_score lib s N d n)"]
      show ?thesis using bic_best_eq [OF sh, of lib] False by (auto simp: Let_def)
    qed
    with kept show ?thesis by (auto simp: select_BIC_fst)
  qed
  let ?dc = "successful (dic_logL lib s) s"
  have dic_kept: "fst (fst (dic_loop lib s ?rng ([], [], 0))) = ?dc"
    by (simp add: dic_loop_fst successful_def)
  have dic: "\<exists>best. fst (dic_best lib s) = Inr best
         \<and> (?dc = [] \<longrightarrow> best = n_constant s)
         \<and> (2 \<le> length ?dc \<longrightarrow> best \<in> set ?dc)
         \<and> fst (select_DIC lib s)
             = Inr (hmm_fit lib best (random_state s) (X s) (lengths s))"
  proof -
    consider (few) "length ?dc \<le> 1" | (two) "length ?dc = 2" | (more) "3 \<le> length ?dc"
      by linarith
    then have "\<exists>best. fst (dic_best lib s) = Inr best
         \<and> (?dc = [] \<longrightarrow> best = n_constant s) \<and> (2 \<le> length ?dc \<longrightarrow> best \<in> set ?dc)"
    proof cases
      case few
      then show ?thesis unfolding dic_best_eq by (auto simp: Let_def dic_choose_def)
    next
      case two
      then show ?thesis unfolding dic_best_eq
        by (cases ?dc) (auto simp: Let_def dic_choose_def getitem_def)
    next
      case more
      then have ne: "?dc \<noteq> []" by auto
      let ?g = "\<lambda>n. projr (dic_logL lib s n)"
      let ?f = "\<lambda>l. l - (sum_list (map ?g ?dc) - l) / real_of_int (int (length ?dc) - 1)"
      from pick_max [OF ne successful_sorted, of "\<lambda>n. ?f (?g n)"] obtain b where
        "at_argmax ?dc (map (\<lambda>n. ?f (?g n)) ?dc) = Inr b" "b \<in> set ?dc" by blast
      then show ?thesis using more ne unfolding dic_best_eq
        by (simp add: Let_def dic_choose_def comp_def)
    qed
    then show ?thesis by (auto simp: select_DIC_fst)
  qed
  let ?cc = "successful (cv_score lib s) s"
  have cv_kept: "fst (fst (cv_loop lib ?rng s ([], []))) = ?cc"
    using cv_loop_start [where lib = lib and s = s] by simp
  have cv: "\<exists>best. fst (cv_best lib s) = Inr best
         \<and> (if ?cc = [] then best = n_constant s else best \<in> set ?cc)
         \<and> fst (select_CV lib s)
             = Inr (hmm_fit lib best (random_state s)
                      (X (fst (snd (select_CV lib s)))) (lengths (fst (snd (select_CV lib s)))))"
  proof -
    have "\<exists>best. fst (cv_best lib s) = Inr best
         \<and> (if ?cc = [] then best = n_constant s else best \<in> set ?cc)"
    proof (cases "?cc = []")
      case True
      then show ?thesis by (simp add: cv_best_eq)
    next
      case False
      from pick_max [OF False successful_sorted, of "\<lambda>n. projr (cv_score lib s n)"]
      show ?thesis using False by (auto simp: cv_best_eq Let_def)
    qed
    then show ?thesis using select_CV_fst [of lib s] by auto
  qed
  from bic_raise bic dic_kept dic cv_kept cv show ?thesis by blast
qed

text \<open>
  A run where candidate 3 cannot be fit (2 and 4 are kept by every variant), and a run
  where no candidate can be fit (every variant returns \<open>None\<close> from the fit at 3).
\<close>

theorem candidate_failures_do_not_escape_witness:
  "shape (X two_examples) = Inr (2, 1)
   \<and> successful (bic_score (table_library (\<lambda>n. n \<noteq> 3) (logL_table (Some (- 10)) (Some (- 5)) (Some (- 7))) 3) two_examples 2 1)
       two_examples = [2, 4]
   \<and> \<not> isl (fst (select_BIC (table_library (\<lambda>n. n \<noteq> 3) (logL_table (Some (- 10)) (Some (- 5)) (Some (- 7))) 3) two_examples))
   \<and> length (successful (dic_logL (table_library (\<lambda>n. n \<noteq> 3) (logL_table (Some (- 10)) (Some (- 5)) (Some (- 7))) 3) two_examples)
       two_examples) = 2
   \<and> fst (select_DIC (table_library (\<lambda>n. n \<noteq> 3) (logL_table (Some (- 10)) (Some (- 5)) (Some (- 7))) 3) two_examples)
       = Inr (Some (2, [[1], [2]]))
   \<and> successful (cv_score (table_library (\<lambda>n. n \<noteq> 3) (logL_table (Some (- 10)) (Some (- 5)) (Some (- 7))) 3) two_examples)
       two_examples = [2, 4]
   \<and> fst (select_CV (table_library (\<lambda>n. n \<noteq> 3) (logL_table (Some (- 10)) (Some (- 5)) (Some (- 7))) 3) two_examples)
       = Inr (Some (4, [[1], [2]]))
   \<and> successful (bic_score (table_library (\<lambda>n. False) (logL_table None None None) 3) two_examples 2 1)
       two_examples = []
   \<and> fst (select_BIC (table_library (\<lambda>n. False) (logL_table None None None) 3) two_examples) = Inr None
   \<and> fst (select_DIC (table_library (\<lambda>n. False) (logL_table None None None) 3) two_examples) = Inr None
   \<and> fst (select_CV (table_library (\<lambda>n. False) (logL_table None None None) 3) two_examples) = Inr None"
proof -
  let ?lib = "table_library (\<lambda>n. n \<noteq> 3) (logL_table (Some (- 10)) (Some (- 5)) (Some (- 7))) 3"
  let ?none = "table_library (\<lambda>n. False) (logL_table None None None) 3"
  have sh: "shape (X two_examples) = Inr (2, 1)"
    by (simp add: two_examples_def word_selector_def shape_def)
  have kept: "successful (bic_score ?lib two_examples 2 1) two_examples = [2, 4]"
    "successful (dic_logL ?lib two_examples) two_examples = [2, 4]"
    "successful (cv_score ?lib two_examples) two_examples = [2, 4]"
    by (simp_all add: run_defs successful_def bic_score_def bic_candidate_def dic_logL_def
          dic_candidate_def cv_score_def cv_candidate_def split_beta)
  have none: "successful (bic_score ?none two_examples 2 1) two_examples = []"
    "successful (dic_logL ?none two_examples) two_examples = []"
    "successful (cv_score ?none two_examples) two_examples = []"
    by (simp_all add: run_defs successful_def bic_score_def bic_candidate_def dic_logL_def
          dic_candidate_def cv_score_def cv_candidate_def split_beta)
  have dbest: "fst (dic_best ?lib two_examples) = Inr 2"
    by (simp add: run_defs dic_run_defs)
  have cbest: "fst (cv_best ?lib two_examples) = Inr 4"
    by (simp add: run_defs cv_best_def cv_candidate_def at_argmax_def np_argmax_def getitem_def
          split_beta)
  have st: "X (fst (snd (select_CV lib two_examples))) = [[1], [2]]"
    "lengths (fst (snd (select_CV lib two_examples))) = [1, 1]" for lib :: "(int \<times> frame list) library"
    using select_CV_state_few [of two_examples lib]
    by (simp_all add: two_examples_def word_selector_def)
  note a = candidate_failures_do_not_escape [of ?lib two_examples 2 1]
  note b = candidate_failures_do_not_escape [of ?none two_examples 2 1]
  from a sh have r1: "\<not> isl (fst (select_BIC ?lib two_examples))" by simp
  from a dbest have r2: "fst (select_DIC ?lib two_examples) = Inr (Some (2, [[1], [2]]))"
    by (auto simp: two_examples_def word_selector_def table_library_def)
  from a cbest st [of ?lib] have r3: "fst (select_CV ?lib two_examples) = Inr (Some (4, [[1], [2]]))"
    by (auto simp: two_examples_def word_selector_def table_library_def)
  from b sh none have r4: "fst (select_BIC ?none two_examples) = Inr None"
    by (auto simp: two_examples_def word_selector_def table_library_def)
  from b none have r5: "fst (select_DIC ?none two_examples) = Inr None"
    by (auto simp: two_examples_def word_selector_def table_library_def)
  from b none st [of ?none] have r6: "fst (select_CV ?none two_examples) = Inr None"
    by (auto simp: two_examples_def word_selector_def table_library_def)
  from sh kept none r1 r2 r3 r4 r5 r6 show ?thesis by simp
qed

text \<open>
  SelectorDIC with one successful candidate (only 4 can be fit): the fallback
  \<open>n_constant = 3\<close> is taken although not every candidate failed.
\<close>

theorem select_DIC_fallback_with_a_success_counterexample:
  "successful (dic_logL (table_library (\<lambda>n. n = 4) (logL_table (Some (- 10)) (Some (- 5)) (Some (- 7))) 3) two_examples)
      two_examples = [4]
   \<and> n_constant two_examples = 3
   \<and> fst (dic_best (table_library (\<lambda>n. n = 4) (logL_table (Some (- 10)) (Some (- 5)) (Some (- 7))) 3) two_examples)
       = Inr 3
   \<and> fst (select_DIC (table_library (\<lambda>n. n = 4) (logL_table (Some (- 10)) (Some (- 5)) (Some (- 7))) 3) two_examples)
       = Inr None"
  by (simp add: run_defs dic_run_defs)

text \<open>
  C10. In SelectorBIC (on a two-dimensional \<open>X\<close>), in SelectorDIC with at least three
  successful candidates and in SelectorCV, the selected state count is a successful
  candidate with the optimal score, and every successful candidate with the same score
  has a state count that is not smaller.
\<close>

theorem ties_go_to_smallest_state_count:
  "(shape (X s) = Inr (N, d) \<and> successful (bic_score lib s N d) s \<noteq> [] \<longrightarrow>
      (\<exists>best\<in>set (successful (bic_score lib s N d) s).
          fst (bic_best lib s) = Inr best
          \<and> (\<forall>n\<in>set (successful (bic_score lib s N d) s).
                projr (bic_score lib s N d best) \<le> projr (bic_score lib s N d n)
                \<and> (projr (bic_score lib s N d n) = projr (bic_score lib s N d best) \<longrightarrow> best \<le> n))))
   \<and> (3 \<le> length (successful (dic_logL lib s) s) \<longrightarrow>
      (\<exists>best\<in>set (successful (dic_logL lib s) s).
          fst (dic_best lib s) = Inr best
          \<and> (\<forall>n\<in>set (successful (dic_logL lib s) s).
                DIC (dic_logL lib s) (successful (dic_logL lib s) s) n
                  \<le> DIC (dic_logL lib s) (successful (dic_logL lib s) s) best
                \<and> (DIC (dic_logL lib s) (successful (dic_logL lib s) s) n
                     = DIC (dic_logL lib s) (successful (dic_logL lib s) s) best \<longrightarrow> best \<le> n))))
   \<and> (successful (cv_score lib s) s \<noteq> [] \<longrightarrow>
      (\<exists>best\<in>set (successful (cv_score lib s) s).
          fst (cv_best lib s) = Inr best
          \<and> (\<forall>n\<in>set (successful (cv_score lib s) s).
                projr (cv_score lib s n) \<le> projr (cv_score lib s best)
                \<and> (projr (cv_score lib s n) = projr (cv_score lib s best) \<longrightarrow> best \<le> n))))"
proof -
  have bic: "\<exists>best\<in>set (successful (bic_score lib s N d) s).
          fst (bic_best lib s) = Inr best
          \<and> (\<forall>n\<in>set (successful (bic_score lib s N d) s).
                projr (bic_score lib s N d best) \<le> projr (bic_score lib s N d n)
                \<and> (projr (bic_score lib s N d n) = projr (bic_score lib s N d best) \<longrightarrow> best \<le> n))"
    if sh: "shape (X s) = Inr (N, d)" and ne: "successful (bic_score lib s N d) s \<noteq> []"
  proof -
    from pick_min [OF ne successful_sorted, of "\<lambda>n. projr (bic_score lib s N d n)"]
    show ?thesis using bic_best_eq [OF sh, of lib] ne by (auto simp: Let_def)
  qed
  have dic: "\<exists>best\<in>set (successful (dic_logL lib s) s).
          fst (dic_best lib s) = Inr best
          \<and> (\<forall>n\<in>set (successful (dic_logL lib s) s).
                DIC (dic_logL lib s) (successful (dic_logL lib s) s) n
                  \<le> DIC (dic_logL lib s) (successful (dic_logL lib s) s) best
                \<and> (DIC (dic_logL lib s) (successful (dic_logL lib s) s) n
                     = DIC (dic_logL lib s) (successful (dic_logL lib s) s) best \<longrightarrow> best \<le> n))"
    if three: "3 \<le> length (successful (dic_logL lib s) s)"
  proof -
    let ?logL = "dic_logL lib s"
    let ?cands = "successful ?logL s"
    let ?g = "\<lambda>n. projr (?logL n)"
    let ?sum = "sum_list (map ?g ?cands)"
    let ?M = "int (length ?cands) - 1"
    let ?val = "\<lambda>n. ?g n - (?sum - ?g n) / real_of_int ?M"
    from three have ne: "?cands \<noteq> []" by auto
    have dist: "distinct ?cands"
      using successful_sorted [of ?logL s] by (simp add: strict_sorted_iff)
    have M: "real_of_int ?M = real (length ?cands) - 1" by simp
    have val: "DIC ?logL ?cands n = ?val n" if "n \<in> set ?cands" for n
      unfolding DIC_def sum_others [OF dist that, of ?g] M by simp
    have "fst (dic_best lib s) =
        at_argmax ?cands (map (\<lambda>l. l - (?sum - l) / real_of_int ?M) (map ?g ?cands))"
      using three unfolding dic_best_eq by (simp add: Let_def dic_choose_def)
    then have best: "fst (dic_best lib s) = at_argmax ?cands (map ?val ?cands)"
      by (simp add: comp_def)
    from pick_max [OF ne successful_sorted, of ?val] obtain b where
      b: "at_argmax ?cands (map ?val ?cands) = Inr b" "b \<in> set ?cands"
      "\<forall>n\<in>set ?cands. ?val n \<le> ?val b"
      "\<forall>n\<in>set ?cands. ?val b \<le> ?val n \<longrightarrow> b \<le> n" by blast
    have "\<forall>n\<in>set ?cands. DIC ?logL ?cands n \<le> DIC ?logL ?cands b
            \<and> (DIC ?logL ?cands n = DIC ?logL ?cands b \<longrightarrow> b \<le> n)"
      using b val by simp
    with b best show ?thesis by auto
  qed
  have cv: "\<exists>best\<in>set (successful (cv_score lib s) s).
          fst (cv_best lib s) = Inr best
          \<and> (\<forall>n\<in>set (successful (cv_score lib s) s).
                projr (cv_score lib s n) \<le> projr (cv_score lib s best)
                \<and> (projr (cv_score lib s n) = projr (cv_score lib s best) \<longrightarrow> best \<le> n))"
    if ne: "successful (cv_score lib s) s \<noteq> []"
  proof -
    from pick_max [OF ne successful_sorted, of "\<lambda>n. projr (cv_score lib s n)"]
    show ?thesis using ne by (auto simp: cv_best_eq Let_def)
  qed
  from bic dic cv show ?thesis by blast
qed

text \<open>
  Ties: BIC 100, 100, 120; log-likelihoods -5, -7, -5 for DIC; fold means -5, -5 for
  cross-validation on three sequences.  State count 2 is selected each time.
\<close>

theorem ties_go_to_smallest_state_count_witness:
  "shape (X two_examples) = Inr (2, 1)
   \<and> bic_score (table_library (\<lambda>n. True)
         (logL_table (Some (7 * ln 2 / 2 - 50)) (Some (14 * ln 2 / 2 - 50)) (Some (23 * ln 2 / 2 - 60))) 3)
       two_examples 2 1 2 = Inr 100
   \<and> bic_score (table_library (\<lambda>n. True)
         (logL_table (Some (7 * ln 2 / 2 - 50)) (Some (14 * ln 2 / 2 - 50)) (Some (23 * ln 2 / 2 - 60))) 3)
       two_examples 2 1 3 = Inr 100
   \<and> fst (bic_best (table_library (\<lambda>n. True)
         (logL_table (Some (7 * ln 2 / 2 - 50)) (Some (14 * ln 2 / 2 - 50)) (Some (23 * ln 2 / 2 - 60))) 3)
       two_examples) = Inr 2
   \<and> DIC (dic_logL (table_library (\<lambda>n. True) (logL_table (Some (- 5)) (Some (- 7)) (Some (- 5))) 3) two_examples)
       [2, 3, 4] 2
     = DIC (dic_logL (table_library (\<lambda>n. True) (logL_table (Some (- 5)) (Some (- 7)) (Some (- 5))) 3) two_examples)
       [2, 3, 4] 4
   \<and> fst (dic_best (table_library (\<lambda>n. True) (logL_table (Some (- 5)) (Some (- 7)) (Some (- 5))) 3) two_examples)
       = Inr 2
   \<and> cv_score (table_library (\<lambda>n. True) (logL_table (Some (- 5)) (Some (- 5)) None) 3) three_examples 2 = Inr (- 5)
   \<and> cv_score (table_library (\<lambda>n. True) (logL_table (Some (- 5)) (Some (- 5)) None) 3) three_examples 3 = Inr (- 5)
   \<and> fst (cv_best (table_library (\<lambda>n. True) (logL_table (Some (- 5)) (Some (- 5)) None) 3) three_examples)
       = Inr 2"
proof -
  let ?Lb = "table_library (\<lambda>n. True)
         (logL_table (Some (7 * ln 2 / 2 - 50)) (Some (14 * ln 2 / 2 - 50)) (Some (23 * ln 2 / 2 - 60))) 3"
  let ?Ld = "table_library (\<lambda>n. True) (logL_table (Some (- 5)) (Some (- 7)) (Some (- 5))) 3"
  let ?Lc = "table_library (\<lambda>n. True) (logL_table (Some (- 5)) (Some (- 5)) None) 3"
  have sh: "shape (X two_examples) = Inr (2, 1)"
    by (simp add: two_examples_def word_selector_def shape_def)
  have b: "bic_score ?Lb two_examples 2 1 2 = Inr 100"
    "bic_score ?Lb two_examples 2 1 3 = Inr 100"
    "bic_score ?Lb two_examples 2 1 4 = Inr 120"
    by (simp_all add: run_defs bic_score_def bic_candidate_def)
  then have bc: "successful (bic_score ?Lb two_examples 2 1) two_examples = [2, 3, 4]"
    by (simp add: successful_def two_examples_def word_selector_def upto_2_4)
  have dl: "dic_logL ?Ld two_examples 2 = Inr (- 5)" "dic_logL ?Ld two_examples 3 = Inr (- 7)"
    "dic_logL ?Ld two_examples 4 = Inr (- 5)"
    by (simp_all add: run_defs dic_logL_def dic_candidate_def)
  then have dc: "successful (dic_logL ?Ld two_examples) two_examples = [2, 3, 4]"
    by (simp add: successful_def two_examples_def word_selector_def upto_2_4)
  have dv: "DIC (dic_logL ?Ld two_examples) [2, 3, 4] 2 = 1"
    "DIC (dic_logL ?Ld two_examples) [2, 3, 4] 3 = - 2"
    "DIC (dic_logL ?Ld two_examples) [2, 3, 4] 4 = 1"
    using dl by (simp_all add: DIC_def)
  have c: "cv_score ?Lc three_examples 2 = Inr (- 5)" "cv_score ?Lc three_examples 3 = Inr (- 5)"
    by (simp_all add: three_examples_def word_selector_def table_library_def logL_table_def
          base_model_def model_score_def upt_3 cv_score_def cv_candidate_def KFold_split_def
          fold_sizes_def combine_sequences_def np_mean_def split_beta Let_def)
  then have cc: "successful (cv_score ?Lc three_examples) three_examples = [2, 3]"
    by (simp add: successful_def three_examples_def word_selector_def upto_2_3)
  from ties_go_to_smallest_state_count [of two_examples 2 1 ?Lb] sh bc b
  have r1: "fst (bic_best ?Lb two_examples) = Inr 2" by auto
  from ties_go_to_smallest_state_count [of two_examples 2 1 ?Ld] dc dv
  have r2: "fst (dic_best ?Ld two_examples) = Inr 2" by auto
  from ties_go_to_smallest_state_count [of three_examples 2 1 ?Lc] cc c
  have r3: "fst (cv_best ?Lc three_examples) = Inr 2" by auto
  from sh b dv c r1 r2 r3 show ?thesis by simp
qed

end
